theory Spec2Isabelle
  imports Main "HOL-Library.AList"
begin

section \<open>Syntax tree (Context.ts, as used by the parser, validator, converter and executor)\<close>

text \<open>
  A letter is a string: a one-character alphabet symbol, a parameter name, or the empty
  string for blank (the parser pushes \<open>""\<close> for the keyword \<open>blank\<close>).
  Source positions are only used for diagnostics and are left out.
\<close>

datatype Direction = LEFT | RIGHT | START | END

datatype TerminationState = ACCEPT | REJECT | HALT

datatype FlowChangeContext =
    GoToContext (goto_identifier: string) (goto_args: "string list")
  | TerminationContext (termination_state: TerminationState)

datatype BasicBlockContext =
  BasicBlockContext (changeToCommand: "string option") (moveCommand: "Direction option")
    (flowCommand: "FlowChangeContext option")

datatype CoreBasicBlockContext =
  CoreBasicBlockContext (coreChangeToCommand: "string option") (coreMoveCommand: "Direction option")

datatype NormalBlockContext =
    BasicBlock BasicBlockContext
  | SwitchBlock "CaseContext list"
and CaseContext =
    IfCase "string list" "NormalBlockContext list"
  | WhileCase "string list" CoreBasicBlockContext
  | ElseCase "NormalBlockContext list"

record ModuleContext =
  mod_identifier :: string
  params :: "string list"
  blocks :: "NormalBlockContext list"

record ProgramContext =
  alphabet :: "string list"
  modules :: "ModuleContext list"

text \<open>The block that a case executes first: a basic block or the core block of a while.\<close>

datatype ExecutionBlock = ExecBasic BasicBlockContext | ExecCore CoreBasicBlockContext

text \<open>
  Modelled from the spec: \<open>CaseContext.firstBlock\<close> (Context.ts is not among the sources).
  "Inside a case, only the first block supplies the Transition"; the first block of an If or
  Else body is a Basic Block by the Validator's rule, the one of a While is its Core Basic
  Block. An empty body or a nested Switch Block in first position gives no execution block.
\<close>

fun firstBlock :: "CaseContext \<Rightarrow> ExecutionBlock option" where
  "firstBlock (IfCase vs (BasicBlock b # bs)) = Some (ExecBasic b)"
| "firstBlock (ElseCase (BasicBlock b # bs)) = Some (ExecBasic b)"
| "firstBlock (WhileCase vs c) = Some (ExecCore c)"
| "firstBlock _ = None"

text \<open>JavaScript's \<open>m.get(k)\<close> on an insertion-ordered \<open>Map\<close>, kept as an association list.\<close>

type_synonym argument_map = "(string \<times> string) list"

text \<open>
  Modelled from the spec: \<open>CaseContext.applies(letter, argumentMap)\<close> (Context.ts is not among
  the sources): a case matches when one of its trigger values is the tape symbol "under the
  active argument bindings"; an Else case always matches.
\<close>

definition resolveValue :: "argument_map \<Rightarrow> string \<Rightarrow> string" where
  "resolveValue m v = (case map_of m v of None \<Rightarrow> v | Some a \<Rightarrow> a)"

fun applies :: "CaseContext \<Rightarrow> string \<Rightarrow> argument_map \<Rightarrow> bool" where
  "applies (IfCase vs bs) letter m = list_ex (\<lambda>v. resolveValue m v = letter) vs"
| "applies (WhileCase vs c) letter m = list_ex (\<lambda>v. resolveValue m v = letter) vs"
| "applies (ElseCase bs) letter m = True"

section \<open>Tape (TMTape.ts)\<close>

text \<open>
  \<open>s.trim().length === 0\<close>: the string consists of white space only. A character of the
  model is one of the code units U+0000 to U+00FF; among these \<open>String.prototype.trim\<close>
  strips tab, line feed, vertical tab, form feed, carriage return, space and the no-break
  space U+00A0. The white space above U+00FF (U+1680, U+2000 to U+200A, U+2028, U+2029,
  U+202F, U+205F, U+3000, U+FEFF) is not a character of the model's strings.
\<close>

definition isSpaceChar :: "char \<Rightarrow> bool" where
  "isSpaceChar c =
     (c \<in> set [CHR 0x09, CHR 0x0A, CHR 0x0B, CHR 0x0C, CHR 0x0D, CHR 0x20, CHR 0xA0])"

definition trimIsEmpty :: "string \<Rightarrow> bool" where
  "trimIsEmpty s = list_all isSpaceChar s"

record TMTape =
  valueMap :: "(int \<times> string) list"
  currentIndex :: int

fun initValueMap :: "int \<Rightarrow> string \<Rightarrow> (int \<times> string) list \<Rightarrow> (int \<times> string) list" where
  "initValueMap i [] m = m"
| "initValueMap i (c # cs) m =
     initValueMap (i + 1) cs (if \<not> trimIsEmpty [c] then AList.update i [c] m else m)"

definition newTMTape :: "string \<Rightarrow> TMTape" where
  "newTMTape v = \<lparr> valueMap = initValueMap 0 v [], currentIndex = 0 \<rparr>"

definition minIndex :: "TMTape \<Rightarrow> int" where
  "minIndex t = (case map fst (valueMap t) of [] \<Rightarrow> 0 | k # ks \<Rightarrow> fold min ks k)"

definition maxIndex :: "TMTape \<Rightarrow> int" where
  "maxIndex t = (case map fst (valueMap t) of [] \<Rightarrow> 0 | k # ks \<Rightarrow> fold max ks k)"

definition tape_change :: "string \<Rightarrow> TMTape \<Rightarrow> TMTape" where
  "tape_change letter t =
     (if trimIsEmpty letter then t\<lparr> valueMap := AList.delete (currentIndex t) (valueMap t) \<rparr>
      else t\<lparr> valueMap := AList.update (currentIndex t) letter (valueMap t) \<rparr>)"

fun tape_move :: "Direction \<Rightarrow> TMTape \<Rightarrow> TMTape" where
  "tape_move LEFT t = t\<lparr> currentIndex := currentIndex t - 1 \<rparr>"
| "tape_move START t = t\<lparr> currentIndex := minIndex t \<rparr>"
| "tape_move END t = t\<lparr> currentIndex := maxIndex t \<rparr>"
| "tape_move RIGHT t = t\<lparr> currentIndex := currentIndex t + 1 \<rparr>"

text \<open>\<open>this._valueMap.get(this.currentIndex+i) || ""\<close>\<close>

definition tape_get :: "TMTape \<Rightarrow> int \<Rightarrow> string" where
  "tape_get t i = (case map_of (valueMap t) (currentIndex t + i) of None \<Rightarrow> [] | Some v \<Rightarrow> v)"

section \<open>Interpreter (CodeExecutor.ts)\<close>

text \<open>
  The JavaScript arrays used as stacks are lists in the same order: \<open>push\<close> appends at the
  end, the top is the last element, \<open>pop\<close> removes it.
\<close>

record CodeExecutor =
  terminationStatus :: "TerminationState option"
  program :: ProgramContext
  currentBlockIndexStack :: "nat list"
  currentBlocksStack :: "NormalBlockContext list list"
  argumentMapStack :: "argument_map list"
  topLevelModuleStack :: "bool list"
  tape :: TMTape

definition top :: "'a list \<Rightarrow> 'a option" where
  "top xs = (if xs = [] then None else Some (last xs))"

definition currentArgumentMap :: "CodeExecutor \<Rightarrow> argument_map option" where
  "currentArgumentMap s = top (argumentMapStack s)"

definition pushBlocks :: "NormalBlockContext list \<Rightarrow> bool \<Rightarrow> CodeExecutor \<Rightarrow> CodeExecutor" where
  "pushBlocks bs pushingModule s =
     s\<lparr> currentBlocksStack := currentBlocksStack s @ [bs],
        currentBlockIndexStack := currentBlockIndexStack s @ [0],
        topLevelModuleStack := topLevelModuleStack s @ [pushingModule] \<rparr>"

text \<open>
  \<open>_incrementIndex\<close>: only called while the block stack is not empty. With an empty index
  stack JavaScript reads \<open>undefined\<close>, \<open>undefined + 1 < n\<close> is false and no element is changed.
\<close>

definition incrementIndex :: "CodeExecutor \<Rightarrow> bool \<times> CodeExecutor" where
  "incrementIndex s =
     (let currentBlocks = last (currentBlocksStack s); ixs = currentBlockIndexStack s in
      if ixs = [] then (False, s)
      else (last ixs + 1 < length currentBlocks,
            s\<lparr> currentBlockIndexStack := butlast ixs @ [last ixs + 1] \<rparr>))"

text \<open>
  The body of the loop of \<open>_incrementIndexAndPop\<close> after a failed increment: the block and
  index stacks are popped, the argument map too when the flag on top says "module", then the
  flag. With no flag on top \<open>_topLevelIsModule\<close> is \<open>undefined\<close>, which is falsy.
\<close>

definition popFrame :: "CodeExecutor \<Rightarrow> CodeExecutor" where
  "popFrame s =
     (let s1 = s\<lparr> currentBlocksStack := butlast (currentBlocksStack s),
                  currentBlockIndexStack := butlast (currentBlockIndexStack s) \<rparr>;
          s2 = (if top (topLevelModuleStack s1) = Some True
                then s1\<lparr> argumentMapStack := butlast (argumentMapStack s1) \<rparr> else s1)
      in s2\<lparr> topLevelModuleStack := butlast (topLevelModuleStack s2) \<rparr>)"

function incrementIndexAndPop :: "CodeExecutor \<Rightarrow> CodeExecutor" where
  "incrementIndexAndPop s =
     (if currentBlocksStack s = [] then s
      else (case incrementIndex s of
              (True, s1) \<Rightarrow> s1
            | (False, s1) \<Rightarrow> incrementIndexAndPop (popFrame s1)))"
  by pat_completeness auto
termination
  by (relation "measure (\<lambda>s. length (currentBlocksStack s))")
     (auto simp: incrementIndex_def popFrame_def Let_def split: if_splits)

declare incrementIndexAndPop.simps [simp del]

definition validateTapeValue :: "ProgramContext \<Rightarrow> string \<Rightarrow> bool" where
  "validateTapeValue p v =
     list_all (\<lambda>c. trimIsEmpty [c] \<or> [c] \<in> set (alphabet p)) v"

text \<open>
  \<open>_generateAndPushArgumentMap(params, args)\<close> of the executor: the loop runs over the
  arguments and stores \<open>argumentMap.set(args[i], params[i])\<close>. A missing \<open>params[i]\<close> is
  \<open>undefined\<close> in JavaScript; the Validator makes both lists equally long, and the
  model stops at the shorter one.
\<close>

fun generateArgumentMap :: "string list \<Rightarrow> string list \<Rightarrow> argument_map \<Rightarrow> argument_map" where
  "generateArgumentMap (p # ps) (a # as) m = generateArgumentMap ps as (AList.update a p m)"
| "generateArgumentMap _ _ m = m"

definition generateAndPushArgumentMap :: "string list \<Rightarrow> string list \<Rightarrow> CodeExecutor \<Rightarrow> CodeExecutor" where
  "generateAndPushArgumentMap ps as s =
     s\<lparr> argumentMapStack := argumentMapStack s @ [generateArgumentMap ps as []] \<rparr>"

text \<open>
  The constructor: the tape is checked against the alphabet, and the first module's blocks
  form the only frame. \<open>None\<close> stands for the thrown error (invalid tape, or no module).
  The tape itself is the one of \<open>TapeExecutor\<close>, built by \<open>new TMTape(value)\<close>.
\<close>

definition newCodeExecutor :: "string \<Rightarrow> ProgramContext \<Rightarrow> CodeExecutor option" where
  "newCodeExecutor v p =
     (if \<not> validateTapeValue p v then None
      else (case modules p of
              [] \<Rightarrow> None
            | m # ms \<Rightarrow>
                Some \<lparr> terminationStatus = None, program = p,
                       currentBlockIndexStack = [0],
                       currentBlocksStack = [blocks m],
                       argumentMapStack = [[]],
                       topLevelModuleStack = [True],
                       tape = newTMTape v \<rparr>))"

text \<open>
  \<open>currentBlock\<close>: \<open>undefined\<close> after termination, otherwise the indexed element of the top
  block list (\<open>undefined\<close> when the index is past its end).
\<close>

definition currentBlock :: "CodeExecutor \<Rightarrow> NormalBlockContext option" where
  "currentBlock s =
     (if terminationStatus s = None then
        (case (top (currentBlocksStack s), top (currentBlockIndexStack s)) of
           (Some bs, Some i) \<Rightarrow> (if i < length bs then Some (bs ! i) else None)
         | _ \<Rightarrow> None)
      else None)"

text \<open>\<open>_execute\<close>: change the symbol under the head, then move; the defaults are the symbol
  read and \<open>LEFT\<close>.\<close>

definition execBlock :: "string option \<Rightarrow> Direction option \<Rightarrow> string \<Rightarrow> CodeExecutor \<Rightarrow> CodeExecutor" where
  "execBlock chg mv letter s =
     s\<lparr> tape := tape_move (case mv of None \<Rightarrow> LEFT | Some d \<Rightarrow> d)
                  (tape_change (case chg of None \<Rightarrow> letter | Some v \<Rightarrow> v) (tape s)) \<rparr>"

fun executeBlock :: "ExecutionBlock \<Rightarrow> string \<Rightarrow> CodeExecutor \<Rightarrow> CodeExecutor" where
  "executeBlock (ExecBasic b) letter s = execBlock (changeToCommand b) (moveCommand b) letter s"
| "executeBlock (ExecCore c) letter s = execBlock (coreChangeToCommand c) (coreMoveCommand c) letter s"

text \<open>
  \<open>_findExecutionBlock\<close>. \<open>None\<close> is the \<open>TypeError\<close> of JavaScript: no current block, no
  case that applies, or no first block.
\<close>

fun isIfOrElse :: "CaseContext \<Rightarrow> bool" where
  "isIfOrElse (IfCase vs bs) = True"
| "isIfOrElse (ElseCase bs) = True"
| "isIfOrElse (WhileCase vs c) = False"

fun caseBlocks :: "CaseContext \<Rightarrow> NormalBlockContext list" where
  "caseBlocks (IfCase vs bs) = bs"
| "caseBlocks (ElseCase bs) = bs"
| "caseBlocks (WhileCase vs c) = []"

definition findExecutionBlock :: "string \<Rightarrow> CodeExecutor \<Rightarrow> (ExecutionBlock \<times> CodeExecutor) option" where
  "findExecutionBlock tapehead s =
     (case currentBlock s of
        None \<Rightarrow> None
      | Some (BasicBlock b) \<Rightarrow> Some (ExecBasic b, s)
      | Some (SwitchBlock cases) \<Rightarrow>
          (case currentArgumentMap s of
             None \<Rightarrow> None
           | Some m \<Rightarrow>
              (case List.find (\<lambda>c. applies c tapehead m) cases of
                 None \<Rightarrow> None
               | Some caseBlock \<Rightarrow>
                  (case firstBlock caseBlock of
                     None \<Rightarrow> None
                   | Some executionBlock \<Rightarrow>
                       Some (executionBlock,
                             if isIfOrElse caseBlock then pushBlocks (caseBlocks caseBlock) False s
                             else s)))))"

text \<open>\<open>_findNextBlock\<close>; \<open>None\<close> when the module of a goto is not found.\<close>

definition findNextBlock :: "BasicBlockContext \<Rightarrow> CodeExecutor \<Rightarrow> CodeExecutor option" where
  "findNextBlock executionBlock s =
     (case flowCommand executionBlock of
        Some (GoToContext ident args) \<Rightarrow>
          (case List.find (\<lambda>m. mod_identifier m = ident) (modules (program s)) of
             None \<Rightarrow> None
           | Some nextModule \<Rightarrow>
               Some (generateAndPushArgumentMap (params nextModule) args
                       (pushBlocks (blocks nextModule) True s)))
      | Some (TerminationContext st) \<Rightarrow> Some (s\<lparr> terminationStatus := Some st \<rparr>)
      | None \<Rightarrow>
          (let s1 = incrementIndexAndPop s in
           Some (if currentBlocksStack s1 = [] then s1\<lparr> terminationStatus := Some REJECT \<rparr>
                 else s1)))"

definition execute :: "CodeExecutor \<Rightarrow> (bool \<times> CodeExecutor) option" where
  "execute s =
     (if terminationStatus s \<noteq> None then Some (False, s)
      else
        (let tapehead = tape_get (tape s) 0 in
         case findExecutionBlock tapehead s of
           None \<Rightarrow> None
         | Some (executionBlock, s1) \<Rightarrow>
             (let s2 = executeBlock executionBlock tapehead s1 in
              case executionBlock of
                ExecBasic b \<Rightarrow> map_option (Pair True) (findNextBlock b s2)
              | ExecCore c \<Rightarrow> Some (True, s2))))"


section \<open>Automaton (TuringMachine.ts)\<close>

text \<open>
  The change a lowered block produces (\<open>IncompleteTMChange\<close>): the next state's label, the
  letter to write if any, the direction if any.
\<close>

record IncompleteTMChange =
  nextState :: string
  letter :: "string option"
  direction :: "Direction option"

text \<open>
  Modelled from the spec: the automaton (TuringMachine.ts is not among the sources). "Automaton:
  initial state label, a mapping from label to State. Constant State: one Transition,
  independent of input symbol. Variable State: a mapping from alphabet and blank to
  Transition. Transition: next-state label, optional symbol to write (defaults to leaving the
  tape head's current symbol unchanged), head direction" (no Move: left). \<open>addState\<close> stores a
  state under its label; \<open>addTransition\<close> is applied to the Variable State stored under the
  label it was created with.
\<close>

datatype TMState =
    ConstantTMState IncompleteTMChange
  | VariableTMState "(string \<times> IncompleteTMChange) list"

record TuringMachine =
  initialState :: string
  tm_alphabet :: "string list"
  states :: "(string \<times> TMState) list"

record TMChange =
  tm_nextState :: string
  tm_letter :: string
  tm_direction :: Direction

definition completeChange :: "IncompleteTMChange \<Rightarrow> string \<Rightarrow> TMChange" where
  "completeChange c l =
     \<lparr> tm_nextState = nextState c,
       tm_letter = (case letter c of None \<Rightarrow> l | Some v \<Rightarrow> v),
       tm_direction = (case direction c of None \<Rightarrow> LEFT | Some d \<Rightarrow> d) \<rparr>"

fun transition :: "TMState \<Rightarrow> string \<Rightarrow> TMChange option" where
  "transition (ConstantTMState c) l = Some (completeChange c l)"
| "transition (VariableTMState ts) l = map_option (\<lambda>c. completeChange c l) (map_of ts l)"

definition addState :: "string \<Rightarrow> TMState \<Rightarrow> TuringMachine \<Rightarrow> TuringMachine" where
  "addState label st tm = tm\<lparr> states := AList.update label st (states tm) \<rparr>"

definition addTransition :: "string \<Rightarrow> string \<Rightarrow> IncompleteTMChange \<Rightarrow> TuringMachine \<Rightarrow> TuringMachine" where
  "addTransition label l c tm =
     (case map_of (states tm) label of
        Some (VariableTMState ts) \<Rightarrow>
          tm\<lparr> states := AList.update label (VariableTMState (AList.update l c ts)) (states tm) \<rparr>
      | _ \<Rightarrow> tm)"

definition getState :: "TuringMachine \<Rightarrow> string \<Rightarrow> TMState option" where
  "getState tm label = map_of (states tm) label"

text \<open>
  Modelled from the spec: driving the automaton against a tape ("whichever driver steps a
  compiled Automaton"): the state's transition for the symbol under the head is taken, its
  letter written, the head moved, and its next-state label becomes current. The run is over
  at a reserved label; a label with no state, or a Variable State with no transition for the
  symbol, leaves the driver stuck.
\<close>

fun labelStatus :: "string \<Rightarrow> TerminationState option" where
  "labelStatus l =
     (if l = ''accept'' then Some ACCEPT
      else if l = ''reject'' then Some REJECT
      else if l = ''halt'' then Some HALT
      else None)"

definition tm_step :: "TuringMachine \<Rightarrow> string \<Rightarrow> TMTape \<Rightarrow> (TMChange \<times> TMTape) option" where
  "tm_step tm label t =
     (case getState tm label of
        None \<Rightarrow> None
      | Some st \<Rightarrow>
         (case transition st (tape_get t 0) of
            None \<Rightarrow> None
          | Some c \<Rightarrow> Some (c, tape_move (tm_direction c) (tape_change (tm_letter c) t))))"

text \<open>
  What a run shows, step by step: the tape after the step (the symbol written and the head
  movement applied) and the status reached, if any. \<open>automatonTrace\<close> drives the automaton,
  \<open>interpreterTrace\<close> calls \<open>execute\<close> (defined above) until it returns false.
\<close>

fun automatonTrace :: "nat \<Rightarrow> TuringMachine \<Rightarrow> string \<Rightarrow> TMTape \<Rightarrow> (TMTape \<times> TerminationState option) list" where
  "automatonTrace 0 tm label t = []"
| "automatonTrace (Suc n) tm label t =
     (if labelStatus label \<noteq> None then []
      else (case tm_step tm label t of
              None \<Rightarrow> []
            | Some (c, t1) \<Rightarrow>
                (t1, labelStatus (tm_nextState c)) # automatonTrace n tm (tm_nextState c) t1))"

fun interpreterTrace :: "nat \<Rightarrow> CodeExecutor \<Rightarrow> (TMTape \<times> TerminationState option) list" where
  "interpreterTrace 0 s = []"
| "interpreterTrace (Suc n) s =
     (case execute s of
        Some (True, s1) \<Rightarrow> (tape s1, terminationStatus s1) # interpreterTrace n s1
      | _ \<Rightarrow> [])"

section \<open>Compiler (CodeConverter.ts)\<close>

text \<open>\<open>n.toString()\<close> for a natural number, \<open>xs.join(",")\<close>, and an insertion-ordered \<open>Set\<close>.\<close>

function string_of_nat :: "nat \<Rightarrow> string" where
  "string_of_nat n =
     (if n < 10 then [''0123456789'' ! n]
      else string_of_nat (n div 10) @ [''0123456789'' ! (n mod 10)])"
  by pat_completeness auto
termination
  by (relation "measure id") auto

declare string_of_nat.simps [simp del]

fun join :: "string \<Rightarrow> string list \<Rightarrow> string" where
  "join sep [] = []"
| "join sep [x] = x"
| "join sep (x # y # ys) = x @ sep @ join sep (y # ys)"

definition set_add :: "'a \<Rightarrow> 'a list \<Rightarrow> 'a list" where
  "set_add x xs = (if x \<in> set xs then xs else xs @ [x])"

definition newSet :: "'a list \<Rightarrow> 'a list" where
  "newSet xs = foldl (\<lambda>acc x. set_add x acc) [] xs"

text \<open>
  A conversion either ends with a value, or throws a \<open>TypeError\<close> (a property of
  \<open>undefined\<close> is read), or runs out of the fuel that bounds the depth of the visitor's
  recursion.
\<close>

datatype conv_error = OutOfFuel | TypeError

definition bindE :: "'e + 'a \<Rightarrow> ('a \<Rightarrow> 'e + 'b) \<Rightarrow> 'e + 'b" where
  "bindE m f = (case m of Inl e \<Rightarrow> Inl e | Inr x \<Rightarrow> f x)"

definition orTypeError :: "'a option \<Rightarrow> conv_error + 'a" where
  "orTypeError x = (case x of None \<Rightarrow> Inl TypeError | Some v \<Rightarrow> Inr v)"

record CodeConverter =
  turingMachine :: TuringMachine
  cv_alphabet :: "string list"
  cv_program :: ProgramContext
  cv_currentBlocksStack :: "NormalBlockContext list list"
  cv_currentBlockIndexStack :: "nat list"
  cv_argumentMapStack :: "argument_map list"
  identifierStack :: "string list"
  idToModule :: "(string \<times> ModuleContext) list"
  constructedModules :: "(string \<times> string list list) list"
  identifierIndexMap :: "(string \<times> nat) list"

definition newCodeConverter :: "ProgramContext \<Rightarrow> CodeConverter" where
  "newCodeConverter p =
     \<lparr> turingMachine = \<lparr> initialState = [], tm_alphabet = newSet (alphabet p), states = [] \<rparr>,
       cv_alphabet = newSet (alphabet p),
       cv_program = p,
       cv_currentBlocksStack = [],
       cv_currentBlockIndexStack = [],
       cv_argumentMapStack = [],
       identifierStack = [],
       idToModule = [],
       constructedModules = [],
       identifierIndexMap = [] \<rparr>"

text \<open>
  \<open>_currentArgumentMap\<close>, \<open>_currentArgs\<close> (the values of the current argument map, in
  insertion order) and \<open>_currentIdentifier\<close>. Reading them with an empty stack gives
  \<open>undefined\<close>, whose use is a \<open>TypeError\<close>.
\<close>

definition cv_currentArgumentMap :: "CodeConverter \<Rightarrow> conv_error + argument_map" where
  "cv_currentArgumentMap s = orTypeError (top (cv_argumentMapStack s))"

definition currentArgs :: "CodeConverter \<Rightarrow> conv_error + string list" where
  "currentArgs s = bindE (cv_currentArgumentMap s) (\<lambda>m. Inr (map snd m))"

definition currentIdentifier :: "CodeConverter \<Rightarrow> conv_error + string" where
  "currentIdentifier s = orTypeError (top (identifierStack s))"

text \<open>
  \<open>_pushBlocks\<close>: for the blocks of an If or Else body the current argument map is pushed
  again (the callers have read it before, so it is there).
\<close>

definition cv_pushBlocks :: "NormalBlockContext list \<Rightarrow> string \<Rightarrow> bool \<Rightarrow> CodeConverter \<Rightarrow> CodeConverter" where
  "cv_pushBlocks bs ident isModule s =
     (let s1 = s\<lparr> cv_currentBlocksStack := cv_currentBlocksStack s @ [bs],
                  cv_currentBlockIndexStack := cv_currentBlockIndexStack s @ [0],
                  identifierStack := identifierStack s @ [ident] \<rparr>
      in if \<not> isModule
         then (case top (cv_argumentMapStack s1) of
                 None \<Rightarrow> s1
               | Some m \<Rightarrow> s1\<lparr> cv_argumentMapStack := cv_argumentMapStack s1 @ [m] \<rparr>)
         else s1)"

definition popBlocks :: "CodeConverter \<Rightarrow> CodeConverter" where
  "popBlocks s =
     s\<lparr> cv_currentBlocksStack := butlast (cv_currentBlocksStack s),
        cv_currentBlockIndexStack := butlast (cv_currentBlockIndexStack s),
        cv_argumentMapStack := butlast (cv_argumentMapStack s),
        identifierStack := butlast (identifierStack s) \<rparr>"

text \<open>
  \<open>_generateNextLabel(identifier, args, startWith)\<close>: the counter of the base identifier
  becomes \<open>i + 1\<close>, where \<open>i\<close> is the stored counter or, for a new base identifier,
  \<open>(startWith ?? 0) - 1\<close>.
\<close>

definition baseIdentifier :: "string \<Rightarrow> string list \<Rightarrow> string" where
  "baseIdentifier ident args = (if args = [] then ident else ident @ ''-'' @ join '','' args)"

definition generateNextLabel :: "string \<Rightarrow> string list \<Rightarrow> nat \<Rightarrow> CodeConverter \<Rightarrow> string \<times> CodeConverter" where
  "generateNextLabel ident args startWith s =
     (let moduleIdentifier = baseIdentifier ident args;
          i1 = (case map_of (identifierIndexMap s) moduleIdentifier of
                  None \<Rightarrow> startWith
                | Some i \<Rightarrow> i + 1)
      in (moduleIdentifier @ ''-'' @ string_of_nat i1,
          s\<lparr> identifierIndexMap := AList.update moduleIdentifier i1 (identifierIndexMap s) \<rparr>))"

definition cv_incrementIndex :: "CodeConverter \<Rightarrow> conv_error + CodeConverter" where
  "cv_incrementIndex s =
     (let ixs = cv_currentBlockIndexStack s;
          s1 = (if ixs = [] then s
                else s\<lparr> cv_currentBlockIndexStack := butlast ixs @ [last ixs + 1] \<rparr>)
      in bindE (currentIdentifier s1) (\<lambda>ident.
         bindE (currentArgs s1) (\<lambda>args.
         Inr (snd (generateNextLabel ident args 0 s1)))))"

text \<open>
  \<open>_getCurrentLabel(addArgs)\<close>: the counter is looked up under the base identifier with the
  arguments; the label shown leaves the arguments out when \<open>addArgs\<close> is false. A missing
  counter is \<open>undefined\<close>, and \<open>undefined.toString()\<close> throws.
\<close>

definition getCurrentLabel :: "bool \<Rightarrow> CodeConverter \<Rightarrow> conv_error + string" where
  "getCurrentLabel addArgs s =
     bindE (currentArgs s) (\<lambda>args.
     bindE (currentIdentifier s) (\<lambda>ident.
       (let moduleLabel = baseIdentifier ident args;
            showLabel = (if args = [] then ident
                         else ident @ (if addArgs then ''-'' @ join '','' args else []))
        in bindE (orTypeError (map_of (identifierIndexMap s) moduleLabel)) (\<lambda>i.
           Inr (showLabel @ ''-'' @ string_of_nat i)))))"

text \<open>
  \<open>_findNextLabel(n)\<close>: the identifier of frame \<open>n\<close> followed directly by the comma-joined
  keys of frame \<open>n\<close>'s argument map; with no counter stored under that name,
  \<open>(undefined + 1).toString()\<close> is \<open>"NaN"\<close>. An identifier stack shorter than \<open>n\<close> would read
  \<open>undefined\<close>, printed as such.
\<close>

definition findNextLabel :: "nat \<Rightarrow> CodeConverter \<Rightarrow> conv_error + string" where
  "findNextLabel n s =
     (if n < length (cv_argumentMapStack s) then
        (let moduleLabel =
               (if n < length (identifierStack s) then identifierStack s ! n else ''undefined'')
               @ join '','' (map fst (cv_argumentMapStack s ! n))
         in Inr (moduleLabel @ ''-'' @
                 (case map_of (identifierIndexMap s) moduleLabel of
                    None \<Rightarrow> ''NaN''
                  | Some i \<Rightarrow> string_of_nat (i + 1))))
      else Inl TypeError)"

text \<open>
  \<open>_incrementIndexAndFindNextState\<close>: the frames are inspected from the top (index
  \<open>length - 1\<close>) down to 0; \<open>findNextStateFrom k\<close> inspects the frames below index \<open>k\<close>.
\<close>

fun findNextStateFrom :: "nat \<Rightarrow> CodeConverter \<Rightarrow> conv_error + string option" where
  "findNextStateFrom 0 s = Inr None"
| "findNextStateFrom (Suc i) s =
     (if i < length (cv_currentBlockIndexStack s) \<and>
         cv_currentBlockIndexStack s ! i + 1 < length (cv_currentBlocksStack s ! i)
      then bindE (findNextLabel i s) (\<lambda>l. Inr (Some l))
      else findNextStateFrom i s)"

definition incrementIndexAndFindNextState :: "CodeConverter \<Rightarrow> conv_error + string option" where
  "incrementIndexAndFindNextState s = findNextStateFrom (length (cv_currentBlocksStack s)) s"

text \<open>
  \<open>_generateAndPushArgumentMap(params, args)\<close> of the converter: \<open>argumentMap.set(params[i],
  args[i])\<close>. The Validator makes both lists equally long; the model stops at the shorter.
\<close>

fun cv_generateArgumentMap :: "string list \<Rightarrow> string list \<Rightarrow> argument_map \<Rightarrow> argument_map" where
  "cv_generateArgumentMap (p # ps) (a # as) m = cv_generateArgumentMap ps as (AList.update p a m)"
| "cv_generateArgumentMap _ _ m = m"

definition cv_generateAndPushArgumentMap :: "string list \<Rightarrow> string list \<Rightarrow> CodeConverter \<Rightarrow> CodeConverter" where
  "cv_generateAndPushArgumentMap ps as s =
     s\<lparr> cv_argumentMapStack := cv_argumentMapStack s @ [cv_generateArgumentMap ps as []] \<rparr>"

text \<open>
  \<open>_isModuleConstructed\<close>: some recorded argument list agrees with \<open>args\<close> at each of its own
  positions (\<open>args[j]\<close> past the end is \<open>undefined\<close>, equal to no string).
\<close>

fun argsMatch :: "string list \<Rightarrow> string list \<Rightarrow> bool" where
  "argsMatch [] as = True"
| "argsMatch (c # cs) [] = False"
| "argsMatch (c # cs) (a # as) = (c = a \<and> argsMatch cs as)"

definition isModuleConstructed :: "string \<Rightarrow> string list \<Rightarrow> CodeConverter \<Rightarrow> bool" where
  "isModuleConstructed ident args s =
     list_ex (\<lambda>constructedArgs. argsMatch constructedArgs args)
       (case map_of (constructedModules s) ident of None \<Rightarrow> [] | Some c \<Rightarrow> c)"

definition gotoLabel :: "string \<Rightarrow> string list \<Rightarrow> string" where
  "gotoLabel ident args =
     (if args = [] then ident @ ''-0'' else ident @ ''-'' @ join '','' args @ ''-0'')"

text \<open>
  Modelled from the spec: \<open>TerminationState.toString()\<close> and \<open>ChangeToContext.getNextValue\<close>
  (Context.ts is not among the sources): the reserved labels \<open>"accept"\<close> and \<open>"reject"\<close> (and
  \<open>"halt"\<close>), and a ChangeTo target that is "blank or an Alphabet member or a currently-bound
  parameter name", the latter standing for its argument.
\<close>

fun visitTermination :: "TerminationState \<Rightarrow> string" where
  "visitTermination ACCEPT = ''accept''"
| "visitTermination REJECT = ''reject''"
| "visitTermination HALT = ''halt''"

definition getNextValue :: "string \<Rightarrow> argument_map \<Rightarrow> string" where
  "getNextValue v m = resolveValue m v"

definition nextLetter :: "string option \<Rightarrow> CodeConverter \<Rightarrow> conv_error + string option" where
  "nextLetter chg s =
     (case chg of
        None \<Rightarrow> Inr None
      | Some v \<Rightarrow> bindE (cv_currentArgumentMap s) (\<lambda>m. Inr (Some (getNextValue v m))))"

definition cv_addState :: "string \<Rightarrow> TMState \<Rightarrow> CodeConverter \<Rightarrow> CodeConverter" where
  "cv_addState label st s = s\<lparr> turingMachine := addState label st (turingMachine s) \<rparr>"

text \<open>
  The transitions a case adds in \<open>visitSwitchBlock\<close>: an Else case binds every remaining
  letter; an If or While case binds, for each of its values, \<open>argumentMap.get(value) ||
  value\<close>, and removes that letter from the remaining ones.
\<close>

definition argOrValue :: "argument_map \<Rightarrow> string \<Rightarrow> string" where
  "argOrValue m v = (case map_of m v of None \<Rightarrow> v | Some a \<Rightarrow> if a = [] then v else a)"

definition addTransitions :: "string \<Rightarrow> string list \<Rightarrow> IncompleteTMChange \<Rightarrow> CodeConverter \<Rightarrow> CodeConverter" where
  "addTransitions label ls c s =
     s\<lparr> turingMachine := fold (\<lambda>l tm. addTransition label l c tm) ls (turingMachine s) \<rparr>"

fun caseValues :: "CaseContext \<Rightarrow> string list" where
  "caseValues (IfCase vs bs) = vs"
| "caseValues (WhileCase vs c) = vs"
| "caseValues (ElseCase bs) = []"

definition bindCase :: "string \<Rightarrow> CaseContext \<Rightarrow> IncompleteTMChange \<Rightarrow> string list \<Rightarrow> CodeConverter
    \<Rightarrow> conv_error + (string list \<times> CodeConverter)" where
  "bindCase label c change remainingLetters s =
     (case c of
        ElseCase bs \<Rightarrow> Inr (remainingLetters, addTransitions label remainingLetters change s)
      | _ \<Rightarrow>
         (if caseValues c = [] then Inr (remainingLetters, s)
          else bindE (cv_currentArgumentMap s) (\<lambda>m.
            (let ls = map (argOrValue m) (caseValues c)
             in Inr (filter (\<lambda>l. l \<notin> set ls) remainingLetters,
                     addTransitions label ls change s)))))"

definition blockMove :: "ExecutionBlock \<Rightarrow> Direction option" where
  "blockMove b = (case b of ExecBasic bb \<Rightarrow> moveCommand bb | ExecCore c \<Rightarrow> coreMoveCommand c)"

definition blockChangeTo :: "ExecutionBlock \<Rightarrow> string option" where
  "blockChangeTo b = (case b of ExecBasic bb \<Rightarrow> changeToCommand bb | ExecCore c \<Rightarrow> coreChangeToCommand c)"

definition blockFlow :: "ExecutionBlock \<Rightarrow> FlowChangeContext option" where
  "blockFlow b = (case b of ExecBasic bb \<Rightarrow> flowCommand bb | ExecCore c \<Rightarrow> None)"

definition orReject :: "string option \<Rightarrow> string" where
  "orReject r = (case r of None \<Rightarrow> ''reject'' | Some l \<Rightarrow> l)"

definition recordConstructed :: "string \<Rightarrow> string list \<Rightarrow> CodeConverter \<Rightarrow> CodeConverter" where
  "recordConstructed ident args s =
     s\<lparr> constructedModules :=
          AList.update ident
            ((case map_of (constructedModules s) ident of None \<Rightarrow> [] | Some c \<Rightarrow> c) @ [args])
            (constructedModules s) \<rparr>"

text \<open>
  The visitor. \<open>this.visit(node)\<close> dispatches on the kind of the node and recurses; here
  each method takes the visitors it calls as parameters: \<open>visit\<close> for a block and \<open>goTo\<close>
  for a GoTo command. They are tied together below, by recursion on a fuel that bounds the
  depth of the nesting (block bodies and module constructions); the JavaScript has no such
  bound.
\<close>

type_synonym block_visitor = "NormalBlockContext \<Rightarrow> CodeConverter \<Rightarrow> conv_error + CodeConverter"

type_synonym goto_visitor = "string \<Rightarrow> string list \<Rightarrow> CodeConverter \<Rightarrow> conv_error + (string \<times> CodeConverter)"

text \<open>The loop \<open>visit(blocks[i]); this._incrementIndex()\<close> of \<open>visitModule\<close> and
  \<open>_visitIfOrElse\<close>.\<close>

fun visitBlocks :: "block_visitor \<Rightarrow> NormalBlockContext list \<Rightarrow> CodeConverter \<Rightarrow> conv_error + CodeConverter" where
  "visitBlocks visit [] s = Inr s"
| "visitBlocks visit (b # bs) s =
     bindE (visit b s) (\<lambda>s1.
     bindE (cv_incrementIndex s1) (\<lambda>s2.
     visitBlocks visit bs s2))"

definition visitModule :: "block_visitor \<Rightarrow> ModuleContext \<Rightarrow> CodeConverter \<Rightarrow> conv_error + CodeConverter" where
  "visitModule visit m s =
     bindE (currentArgs s) (\<lambda>args.
       (let s1 = snd (generateNextLabel (mod_identifier m) args 0 s);
            s2 = cv_pushBlocks (blocks m) (mod_identifier m) True s1
        in bindE (currentArgs s2) (\<lambda>args2.
           bindE (visitBlocks visit (blocks m) (recordConstructed (mod_identifier m) args2 s2)) (\<lambda>s3.
           Inr (popBlocks s3)))))"

definition visitGoTo :: "block_visitor \<Rightarrow> goto_visitor" where
  "visitGoTo visit ident args s =
     bindE (orTypeError (map_of (idToModule s) ident)) (\<lambda>m.
     bindE (if \<not> isModuleConstructed (mod_identifier m) args s
            then visitModule visit m (cv_generateAndPushArgumentMap (params m) args s)
            else Inr s) (\<lambda>s1.
     Inr (gotoLabel ident args, s1)))"

text \<open>\<open>this.visit(block.flowCommand)\<close>: a GoTo or a Termination command.\<close>

fun visitFlow :: "goto_visitor \<Rightarrow> FlowChangeContext \<Rightarrow> CodeConverter \<Rightarrow> conv_error + (string \<times> CodeConverter)" where
  "visitFlow goTo (GoToContext ident args) s = goTo ident args s"
| "visitFlow goTo (TerminationContext st) s = Inr (visitTermination st, s)"

definition getTMChangeForBasicBlock :: "goto_visitor \<Rightarrow> BasicBlockContext \<Rightarrow> CodeConverter
    \<Rightarrow> conv_error + (IncompleteTMChange \<times> CodeConverter)" where
  "getTMChangeForBasicBlock goTo b s =
     bindE (case flowCommand b of
              Some f \<Rightarrow> visitFlow goTo f s
            | None \<Rightarrow> bindE (incrementIndexAndFindNextState s) (\<lambda>r. Inr (orReject r, s)))
       (\<lambda>(next, s1).
     bindE (nextLetter (changeToCommand b) s1) (\<lambda>l.
     Inr (\<lparr> nextState = next, letter = l, direction = moveCommand b \<rparr>, s1)))"

definition visitBasicBlock :: "goto_visitor \<Rightarrow> BasicBlockContext \<Rightarrow> CodeConverter \<Rightarrow> conv_error + CodeConverter" where
  "visitBasicBlock goTo b s =
     bindE (getTMChangeForBasicBlock goTo b s) (\<lambda>(change, s1).
     bindE (getCurrentLabel True s1) (\<lambda>label.
     Inr (cv_addState label (ConstantTMState change) s1)))"

definition visitIfOrElse :: "block_visitor \<Rightarrow> NormalBlockContext list \<Rightarrow> string \<Rightarrow> CodeConverter
    \<Rightarrow> conv_error + (string option \<times> CodeConverter)" where
  "visitIfOrElse visit bs extraLabel s =
     (if length bs > 1 then
        bindE (getCurrentLabel False s) (\<lambda>cl.
        bindE (currentArgs s) (\<lambda>args.
          (let newIdentifier = cl @ ''-'' @ extraLabel;
               (newLabel, s1) = generateNextLabel newIdentifier args 1 s;
               s2 = cv_pushBlocks bs newIdentifier False s1
           in bindE (visitBlocks visit (tl bs) s2) (\<lambda>s3.
              Inr (Some newLabel, popBlocks s3)))))
      else Inr (None, s))"

text \<open>\<open>this.visit(switchCase)\<close>: \<open>visitIf\<close>, \<open>visitElse\<close> or \<open>visitWhile\<close>.\<close>

definition ifLabel :: "string list \<Rightarrow> string" where
  "ifLabel vs = join '','' (map (\<lambda>v. if v = [] then ''blank'' else v) vs)"

fun visitCase :: "block_visitor \<Rightarrow> CaseContext \<Rightarrow> CodeConverter \<Rightarrow> conv_error + (string option \<times> CodeConverter)" where
  "visitCase visit (IfCase vs bs) s = visitIfOrElse visit bs (ifLabel vs) s"
| "visitCase visit (ElseCase bs) s = visitIfOrElse visit bs ''else'' s"
| "visitCase visit (WhileCase vs cb) s = bindE (getCurrentLabel True s) (\<lambda>l. Inr (Some l, s))"

definition getTMChangeForSwitchCase :: "block_visitor \<Rightarrow> goto_visitor \<Rightarrow> CaseContext \<Rightarrow> CodeConverter
    \<Rightarrow> conv_error + (IncompleteTMChange \<times> CodeConverter)" where
  "getTMChangeForSwitchCase visit goTo c s =
     bindE (orTypeError (firstBlock c)) (\<lambda>block.
     bindE (case blockFlow block of
              Some f \<Rightarrow> visitFlow goTo f s
            | None \<Rightarrow>
               bindE (visitCase visit c s) (\<lambda>(next, s1).
                 (case next of
                    Some l \<Rightarrow> Inr (l, s1)
                  | None \<Rightarrow>
                     bindE (incrementIndexAndFindNextState s1) (\<lambda>r. Inr (orReject r, s1)))))
       (\<lambda>(next, s1).
     bindE (nextLetter (blockChangeTo block) s1) (\<lambda>l.
     Inr (\<lparr> nextState = next, letter = l, direction = blockMove block \<rparr>, s1))))"

text \<open>The loop over the cases of \<open>visitSwitchBlock\<close>; it carries the label of the Variable
  State and the remaining letters.\<close>

fun visitCases :: "block_visitor \<Rightarrow> goto_visitor \<Rightarrow> string \<Rightarrow> CaseContext list \<Rightarrow> string list
    \<Rightarrow> CodeConverter \<Rightarrow> conv_error + CodeConverter" where
  "visitCases visit goTo label [] remainingLetters s = Inr s"
| "visitCases visit goTo label (c # cs) remainingLetters s =
     bindE (getTMChangeForSwitchCase visit goTo c s) (\<lambda>(change, s1).
     bindE (bindCase label c change remainingLetters s1) (\<lambda>(remaining1, s2).
     visitCases visit goTo label cs remaining1 s2))"

definition visitSwitchBlock :: "block_visitor \<Rightarrow> goto_visitor \<Rightarrow> CaseContext list \<Rightarrow> CodeConverter
    \<Rightarrow> conv_error + CodeConverter" where
  "visitSwitchBlock visit goTo cs s =
     bindE (getCurrentLabel True s) (\<lambda>label.
     visitCases visit goTo label cs (set_add [] (newSet (cv_alphabet s)))
       (cv_addState label (VariableTMState []) s))"

text \<open>
  Tying the knot: \<open>visit n\<close> is \<open>this.visit\<close> on a block with nesting depth at most \<open>n\<close>
  left: a basic block goes to \<open>visitBasicBlock\<close>, a switch block to \<open>visitSwitchBlock\<close>, and
  both reach the modules of their GoTo commands and the blocks of their case bodies with one
  unit of fuel less.
\<close>

primrec visit :: "nat \<Rightarrow> block_visitor" where
  "visit 0 = (\<lambda>b s. Inl OutOfFuel)"
| "visit (Suc n) = (\<lambda>b s.
     case b of
       BasicBlock bb \<Rightarrow> visitBasicBlock (visitGoTo (visit n)) bb s
     | SwitchBlock cs \<Rightarrow> visitSwitchBlock (visit n) (visitGoTo (visit n)) cs s)"

text \<open>
  \<open>visitProgram\<close> and \<open>convert\<close>: the initial state is the first module's identifier with
  \<open>-0\<close>; every module is registered under its identifier (a later module replaces an earlier
  one of the same name); the first module is visited with an empty argument map.
\<close>

definition visitProgram :: "nat \<Rightarrow> ProgramContext \<Rightarrow> CodeConverter \<Rightarrow> conv_error + CodeConverter" where
  "visitProgram n p s =
     (case modules p of
        [] \<Rightarrow> Inl TypeError
      | m0 # ms \<Rightarrow>
         (let s1 = s\<lparr> turingMachine := (turingMachine s)\<lparr> initialState := mod_identifier m0 @ ''-0'' \<rparr>,
                      idToModule := fold (\<lambda>m acc. AList.update (mod_identifier m) m acc)
                                      (modules p) (idToModule s),
                      cv_argumentMapStack := cv_argumentMapStack s @ [[]] \<rparr>
          in visitModule (visit n) m0 s1))"

definition convert :: "nat \<Rightarrow> ProgramContext \<Rightarrow> conv_error + TuringMachine" where
  "convert n p = bindE (visitProgram n p (newCodeConverter p)) (\<lambda>s. Inr (turingMachine s))"

section \<open>Validator\<close>

text \<open>
  The sources hold two versions of \<open>CodeValidator\<close>: the file CodeValidator.ts, and a later
  version that follows the parser's error tests in one file (the one with the message
  "If parametrised letters are used then the switch block must have an else case.", which the
  validator's tests expect). Both are modelled; the functions of CodeValidator.ts are prefixed
  \<open>val_\<close>, those of the later version \<open>valv_\<close>. A \<open>CodeError\<close> is kept by its kind and the
  values its message shows; \<open>JSTypeError\<close> stands for reading a property of \<open>undefined\<close>.
\<close>

datatype CodeError =
    DuplicateModule string
  | NoModules
  | FirstModuleHasParameters
  | EmptyAlphabet
  | LetterInAlphabetAndParameter string
  | NonFinalElse
  | LetterNotInAlphabet string
  | MultipleCases string
  | MustHaveElse
  | MissingCases "string list"
  | IfWithoutLetter
  | WhileWithoutLetter
  | IfFirstBlockNotBasic
  | ElseFirstBlockNotBasic
  | UndefinedModule string
  | ExpectedArguments nat
  | NonFinalSwitchBlock
  | NonFinalFlowCommand
  | FirstBlockIsSwitch
  | JSTypeError

record CodeValidator =
  v_alphabet :: "string list"
  v_moduleNames :: "(string \<times> nat) list"
  v_parameters :: "string list"

fun addModuleNames :: "ModuleContext list \<Rightarrow> (string \<times> nat) list \<Rightarrow> CodeError + (string \<times> nat) list" where
  "addModuleNames [] names = Inr names"
| "addModuleNames (m # ms) names =
     (if map_of names (mod_identifier m) \<noteq> None then Inl (DuplicateModule (mod_identifier m))
      else addModuleNames ms (AList.update (mod_identifier m) (length (params m)) names))"

definition visitAlphabet :: "string list \<Rightarrow> CodeError + string list" where
  "visitAlphabet vs = (if vs = [] then Inl EmptyAlphabet else Inr (newSet vs))"

definition visitChangeTo :: "CodeValidator \<Rightarrow> string \<Rightarrow> CodeError + unit" where
  "visitChangeTo v value =
     (if value \<noteq> [] \<and> value \<notin> set (v_alphabet v) then Inl (LetterNotInAlphabet value) else Inr ())"

definition val_visitGoTo :: "CodeValidator \<Rightarrow> string \<Rightarrow> string list \<Rightarrow> CodeError + unit" where
  "val_visitGoTo v ident args =
     (case map_of (v_moduleNames v) ident of
        None \<Rightarrow> Inl (UndefinedModule ident)
      | Some paramCount \<Rightarrow>
          if length args \<noteq> paramCount then Inl (ExpectedArguments paramCount) else Inr ())"

definition maybeVisitChangeTo :: "CodeValidator \<Rightarrow> string option \<Rightarrow> CodeError + unit" where
  "maybeVisitChangeTo v c = (case c of None \<Rightarrow> Inr () | Some value \<Rightarrow> visitChangeTo v value)"

definition maybeVisitFlow :: "CodeValidator \<Rightarrow> FlowChangeContext option \<Rightarrow> CodeError + unit" where
  "maybeVisitFlow v f =
     (case f of
        Some (GoToContext ident args) \<Rightarrow> val_visitGoTo v ident args
      | _ \<Rightarrow> Inr ())"

definition validateBasicBlock :: "CodeValidator \<Rightarrow> BasicBlockContext \<Rightarrow> CodeError + unit" where
  "validateBasicBlock v b =
     bindE (maybeVisitChangeTo v (changeToCommand b)) (\<lambda>_. maybeVisitFlow v (flowCommand b))"

fun checkParameters :: "CodeValidator \<Rightarrow> string list \<Rightarrow> CodeError + unit" where
  "checkParameters v [] = Inr ()"
| "checkParameters v (l # ls) =
     (if l \<in> set (v_alphabet v) then Inl (LetterInAlphabetAndParameter l) else checkParameters v ls)"

subsection \<open>The version with the else-required rule\<close>

text \<open>
  The first loop of \<open>visitSwitchBlock\<close>: \<open>switchLetters\<close> runs over the trigger values of one
  If or While case, \<open>switchCasesScan\<close> over the cases. The state of the loop is
  \<open>(alphabetSet, seenElse, seenParamValue)\<close>.
\<close>

fun isElse :: "CaseContext \<Rightarrow> bool" where
  "isElse (ElseCase bs) = True"
| "isElse _ = False"

fun valv_switchLetters :: "CodeValidator \<Rightarrow> string list \<Rightarrow> string list \<times> bool
    \<Rightarrow> CodeError + (string list \<times> bool)" where
  "valv_switchLetters v [] (alphabetSet, seenParamValue) = Inr (alphabetSet, seenParamValue)"
| "valv_switchLetters v (l # ls) (alphabetSet, seenParamValue) =
     (if l \<in> set (v_parameters v)
      then valv_switchLetters v ls (removeAll l alphabetSet, True)
      else if l \<noteq> [] \<and> l \<notin> set (v_alphabet v) then Inl (LetterNotInAlphabet l)
      else valv_switchLetters v ls (removeAll l alphabetSet, seenParamValue))"

fun valv_switchCasesScan :: "CodeValidator \<Rightarrow> CaseContext list \<Rightarrow> string list \<times> bool \<times> bool
    \<Rightarrow> CodeError + (string list \<times> bool \<times> bool)" where
  "valv_switchCasesScan v [] st = Inr st"
| "valv_switchCasesScan v (c # cs) (alphabetSet, seenElse, seenParamValue) =
     (if isElse c then
        (if cs \<noteq> [] then Inl NonFinalElse
         else valv_switchCasesScan v cs (alphabetSet, True, seenParamValue))
      else
        bindE (valv_switchLetters v (caseValues c) (alphabetSet, seenParamValue)) (\<lambda>(a1, p1).
        valv_switchCasesScan v cs (a1, seenElse, p1)))"

definition switchAlphabetSet :: "CodeValidator \<Rightarrow> string list" where
  "switchAlphabetSet v = fold set_add (v_parameters v) (set_add [] (v_alphabet v))"

text \<open>The check after the cases have been visited.\<close>

definition valv_coverage :: "CodeValidator \<Rightarrow> string list \<times> bool \<times> bool \<Rightarrow> CodeError + unit" where
  "valv_coverage v st =
     (case st of (alphabetSet, seenElse, seenParamValue) \<Rightarrow>
        if seenParamValue \<and> \<not> seenElse then Inl MustHaveElse
        else if \<not> seenElse \<and> length alphabetSet \<noteq> length (v_parameters v)
        then Inl (MissingCases (filter (\<lambda>val. val \<notin> set (v_parameters v)) alphabetSet))
        else Inr ())"

fun isBasic :: "NormalBlockContext \<Rightarrow> bool" where
  "isBasic (BasicBlock b) = True"
| "isBasic (SwitchBlock cs) = False"

text \<open>
  \<open>visit\<close> on a block and on a case, and \<open>visitAll\<close> on lists of them. A While case visits
  its core block through \<open>visitCoreBasicBlock\<close>, which checks nothing.
\<close>

fun valv_visitBlock :: "CodeValidator \<Rightarrow> NormalBlockContext \<Rightarrow> CodeError + unit"
and valv_visitAllBlocks :: "CodeValidator \<Rightarrow> NormalBlockContext list \<Rightarrow> CodeError + unit"
and valv_visitCase :: "CodeValidator \<Rightarrow> CaseContext \<Rightarrow> CodeError + unit"
and valv_visitAllCases :: "CodeValidator \<Rightarrow> CaseContext list \<Rightarrow> CodeError + unit"
where
  "valv_visitBlock v (BasicBlock b) = validateBasicBlock v b"
| "valv_visitBlock v (SwitchBlock cs) =
     bindE (valv_switchCasesScan v cs (switchAlphabetSet v, False, False)) (\<lambda>st.
     bindE (valv_visitAllCases v cs) (\<lambda>_.
     valv_coverage v st))"
| "valv_visitAllBlocks v [] = Inr ()"
| "valv_visitAllBlocks v (b # bs) = bindE (valv_visitBlock v b) (\<lambda>_. valv_visitAllBlocks v bs)"
| "valv_visitCase v (IfCase vs bs) =
     (if vs = [] then Inl IfWithoutLetter
      else if bs = [] then Inl JSTypeError
      else if \<not> isBasic (hd bs) then Inl IfFirstBlockNotBasic
      else valv_visitAllBlocks v bs)"
| "valv_visitCase v (ElseCase bs) =
     (if bs = [] then Inl JSTypeError
      else if \<not> isBasic (hd bs) then Inl ElseFirstBlockNotBasic
      else valv_visitAllBlocks v bs)"
| "valv_visitCase v (WhileCase vs c) = (if vs = [] then Inl WhileWithoutLetter else Inr ())"
| "valv_visitAllCases v [] = Inr ()"
| "valv_visitAllCases v (c # cs) = bindE (valv_visitCase v c) (\<lambda>_. valv_visitAllCases v cs)"

definition valv_visitSwitchBlock :: "CodeValidator \<Rightarrow> CaseContext list \<Rightarrow> CodeError + unit" where
  "valv_visitSwitchBlock v cs = valv_visitBlock v (SwitchBlock cs)"

definition valv_visitModule :: "CodeValidator \<Rightarrow> ModuleContext \<Rightarrow> CodeError + unit" where
  "valv_visitModule v m =
     (let v1 = v\<lparr> v_parameters := newSet (params m) \<rparr>
      in bindE (checkParameters v1 (params m)) (\<lambda>_. valv_visitAllBlocks v1 (blocks m)))"

fun valv_visitAllModules :: "CodeValidator \<Rightarrow> ModuleContext list \<Rightarrow> CodeError + unit" where
  "valv_visitAllModules v [] = Inr ()"
| "valv_visitAllModules v (m # ms) = bindE (valv_visitModule v m) (\<lambda>_. valv_visitAllModules v ms)"

definition valv_validate :: "ProgramContext \<Rightarrow> CodeError + unit" where
  "valv_validate p =
     bindE (visitAlphabet (alphabet p)) (\<lambda>a.
     bindE (addModuleNames (modules p) []) (\<lambda>names.
       (case modules p of
          [] \<Rightarrow> Inl NoModules
        | m0 # ms \<Rightarrow>
            if params m0 \<noteq> [] then Inl FirstModuleHasParameters
            else valv_visitAllModules
                   \<lparr> v_alphabet = a, v_moduleNames = names, v_parameters = [] \<rparr> (modules p))))"

subsection \<open>CodeValidator.ts\<close>

text \<open>
  Here a visit returns whether the block has a flow command. The loop over the trigger
  values of a case (\<open>val_switchLetters\<close>) throws for a value outside the alphabet and for a
  value no longer in \<open>alphabetSet\<close>; each case is visited right after its values.
\<close>

fun val_switchLetters :: "CodeValidator \<Rightarrow> string list \<Rightarrow> string list \<Rightarrow> CodeError + string list" where
  "val_switchLetters v [] alphabetSet = Inr alphabetSet"
| "val_switchLetters v (l # ls) alphabetSet =
     (if l \<noteq> [] \<and> l \<notin> set (v_alphabet v) then Inl (LetterNotInAlphabet l)
      else if l \<notin> set alphabetSet then Inl (MultipleCases l)
      else val_switchLetters v ls (removeAll l alphabetSet))"

definition val_visitBasicBlock :: "CodeValidator \<Rightarrow> BasicBlockContext \<Rightarrow> CodeError + bool" where
  "val_visitBasicBlock v b =
     bindE (validateBasicBlock v b) (\<lambda>_. Inr (flowCommand b \<noteq> None))"

fun val_visitBlock :: "CodeValidator \<Rightarrow> NormalBlockContext \<Rightarrow> CodeError + bool"
and val_validateBlocks :: "CodeValidator \<Rightarrow> bool \<Rightarrow> bool \<Rightarrow> bool \<times> bool
    \<Rightarrow> NormalBlockContext list \<Rightarrow> CodeError + bool"
and val_visitCase :: "CodeValidator \<Rightarrow> CaseContext \<Rightarrow> CodeError + bool"
and val_switchCases :: "CodeValidator \<Rightarrow> CaseContext list \<Rightarrow> string list \<times> bool \<times> bool
    \<Rightarrow> CodeError + (string list \<times> bool \<times> bool)"
where
  "val_visitBlock v (BasicBlock b) = val_visitBasicBlock v b"
| "val_visitBlock v (SwitchBlock cs) =
     bindE (val_switchCases v cs (switchAlphabetSet v, False, False))
       (\<lambda>(alphabetSet, seenElse, hasFlow).
          if \<not> seenElse \<and> alphabetSet \<noteq> [] then Inl (MissingCases alphabetSet)
          else Inr hasFlow)"
| "val_validateBlocks v isIfBlock isFirst (hasFlow, hasSwitch) [] = Inr hasFlow"
| "val_validateBlocks v isIfBlock isFirst (hasFlow, hasSwitch) (b # bs) =
     (if hasSwitch then Inl NonFinalSwitchBlock
      else if hasFlow then Inl NonFinalFlowCommand
      else if \<not> isBasic b \<and> isIfBlock \<and> isFirst then Inl FirstBlockIsSwitch
      else bindE (val_visitBlock v b) (\<lambda>r.
           val_validateBlocks v isIfBlock False (r, \<not> isBasic b) bs))"
| "val_visitCase v (IfCase vs bs) = val_validateBlocks v True True (False, False) bs"
| "val_visitCase v (ElseCase bs) = val_validateBlocks v True True (False, False) bs"
| "val_visitCase v (WhileCase vs c) = Inr False"
| "val_switchCases v [] st = Inr st"
| "val_switchCases v (c # cs) (alphabetSet, seenElse, hasFlow) =
     bindE (if isElse c then (if cs \<noteq> [] then Inl NonFinalElse else Inr (alphabetSet, True))
            else bindE (val_switchLetters v (caseValues c) alphabetSet) (\<lambda>a1. Inr (a1, seenElse)))
       (\<lambda>(a1, e1).
     bindE (val_visitCase v c) (\<lambda>r.
     val_switchCases v cs (a1, e1, hasFlow \<or> r)))"

definition val_visitSwitchBlock :: "CodeValidator \<Rightarrow> CaseContext list \<Rightarrow> CodeError + bool" where
  "val_visitSwitchBlock v cs = val_visitBlock v (SwitchBlock cs)"

section \<open>Parser: the controlled advance (CodeParser.ts)\<close>

text \<open>
  Modelled from the spec: the lexer \<open>CodeWrapper\<close> (CodeWrapper.ts is not among the sources; its
  tests are). The parser sees it through \<open>moveNext()\<close>, \<open>currentValue\<close>, the start line of
  \<open>currentPosition\<close> and \<open>indentationStack\<close>, so a wrapper is the list of the tokens still to
  come, each with its start line and with the indentation stack the lexer shows once the token
  is current ("starts as [0]"; one level pushed for a deeper line, popped down for a
  shallower one, \<open>-1\<close> pushed for a malformed dedent). After the last token \<open>moveNext\<close> returns
  false and the last token stays current.
\<close>

record Token =
  tok_value :: string
  tok_line :: nat
  tok_stack :: "int list"

record CodeWrapper =
  w_current :: "Token option"
  w_rest :: "Token list"

definition w_moveNext :: "CodeWrapper \<Rightarrow> bool \<times> CodeWrapper" where
  "w_moveNext w =
     (case w_rest w of
        [] \<Rightarrow> (False, w)
      | t # ts \<Rightarrow> (True, \<lparr> w_current = Some t, w_rest = ts \<rparr>))"

definition indentationStack :: "CodeWrapper \<Rightarrow> int list" where
  "indentationStack w = (case w_current w of None \<Rightarrow> [0] | Some t \<Rightarrow> tok_stack t)"

definition currentValue :: "CodeWrapper \<Rightarrow> string option" where
  "currentValue w = map_option tok_value (w_current w)"

definition currentLine :: "CodeWrapper \<Rightarrow> nat option" where
  "currentLine w = map_option tok_line (w_current w)"

record CodeParser =
  wrapper :: CodeWrapper
  reachedEnd :: bool

datatype ParseError =
    InvalidIndentation
  | UnexpectedDeIndentation
  | UnexpectedIndentation
  | UnexpectedEndOfFile
  | ExpectedIndentation

text \<open>
  \<open>_ignoreComments\<close>: move on while the token is on the line the comment started on; at the
  end of the tokens \<open>reachedEnd\<close> is set.
\<close>

fun skipLine :: "nat option \<Rightarrow> Token option \<Rightarrow> Token list \<Rightarrow> bool \<times> CodeWrapper" where
  "skipLine startLine cur [] = (False, \<lparr> w_current = cur, w_rest = [] \<rparr>)"
| "skipLine startLine cur (t # ts) =
     (if startLine = Some (tok_line t) then skipLine startLine (Some t) ts
      else (True, \<lparr> w_current = Some t, w_rest = ts \<rparr>))"

definition ignoreComments :: "CodeParser \<Rightarrow> CodeParser" where
  "ignoreComments ps =
     (case skipLine (currentLine (wrapper ps)) (w_current (wrapper ps)) (w_rest (wrapper ps)) of
        (couldMove, w) \<Rightarrow>
          \<lparr> wrapper = w, reachedEnd = (if \<not> couldMove then True else reachedEnd ps) \<rparr>)"

lemma skipLine_le: "length (w_rest (snd (skipLine l c ts))) \<le> length ts"
  by (induction ts arbitrary: c) (auto intro: le_SucI)

lemma skipLine_rest: "length (w_rest (snd (skipLine l c (t # ts)))) \<le> length ts"
  by (simp add: skipLine_le)

lemma wrapper_ignoreComments:
  "wrapper (ignoreComments ps) =
   snd (skipLine (currentLine (wrapper ps)) (w_current (wrapper ps)) (w_rest (wrapper ps)))"
  by (simp add: ignoreComments_def split: prod.split)

text \<open>
  \<open>_matchComments\<close>: \<open>while (currentValue === "##") _ignoreComments()\<close>. When the comment
  marker is the last token, \<open>moveNext\<close> fails, the marker stays current and the loop never
  ends: that is the result \<open>None\<close>.
\<close>

function matchComments :: "CodeParser \<Rightarrow> CodeParser option" where
  "matchComments ps =
     (if currentValue (wrapper ps) = Some ''##''
      then (if w_rest (wrapper ps) = [] then None else matchComments (ignoreComments ps))
      else Some ps)"
  by pat_completeness auto
termination
proof (relation "measure (\<lambda>ps. length (w_rest (wrapper ps)))")
  show "wf (measure (\<lambda>ps. length (w_rest (wrapper ps))))" by simp
next
  fix ps :: CodeParser
  assume ne: "w_rest (wrapper ps) \<noteq> []"
  then obtain t ts where ts: "w_rest (wrapper ps) = t # ts" by (cases "w_rest (wrapper ps)") auto
  have "length (w_rest (wrapper (ignoreComments ps))) \<le> length ts"
    unfolding wrapper_ignoreComments ts by (rule skipLine_rest)
  with ts show "(ignoreComments ps, ps) \<in> measure (\<lambda>ps. length (w_rest (wrapper ps)))"
    by simp
qed

declare matchComments.simps [simp del]

text \<open>The first half of \<open>_moveNext\<close>: the wrapper moves, and comments are skipped.\<close>

definition advance :: "CodeParser \<Rightarrow> CodeParser option" where
  "advance ps =
     (case w_moveNext (wrapper ps) of
        (False, w) \<Rightarrow> Some (ps\<lparr> reachedEnd := True \<rparr>)
      | (True, w) \<Rightarrow> matchComments (ps\<lparr> wrapper := w \<rparr>))"

text \<open>
  The second half: the checks on the new indentation stack, in the order of the source, then
  the end of file. \<open>topIsSentinel\<close> is \<open>newStack[newStack.length-1] == -1\<close>.
\<close>

definition topIsSentinel :: "int list \<Rightarrow> bool" where
  "topIsSentinel st = (st \<noteq> [] \<and> last st = - 1)"

definition checkAdvance :: "bool \<Rightarrow> bool \<Rightarrow> bool \<Rightarrow> nat \<Rightarrow> CodeParser \<Rightarrow> ParseError + CodeParser" where
  "checkAdvance deIndentAllowed indentAllowed shouldThrow prevStackLength ps =
     (let newStack = indentationStack (wrapper ps) in
      if topIsSentinel newStack then Inl InvalidIndentation
      else if \<not> deIndentAllowed \<and> length newStack < prevStackLength then Inl UnexpectedDeIndentation
      else if \<not> indentAllowed \<and> length newStack > prevStackLength then Inl UnexpectedIndentation
      else if reachedEnd ps \<and> shouldThrow then Inl UnexpectedEndOfFile
      else Inr ps)"

text \<open>\<open>_moveNext(deIndentAllowed, indentAllowed, shouldThrow)\<close>; \<open>None\<close> when it does not
  return.\<close>

definition moveNext :: "bool \<Rightarrow> bool \<Rightarrow> bool \<Rightarrow> CodeParser \<Rightarrow> (ParseError + CodeParser) option" where
  "moveNext deIndentAllowed indentAllowed shouldThrow ps =
     map_option
       (checkAdvance deIndentAllowed indentAllowed shouldThrow
          (length (indentationStack (wrapper ps))))
       (advance ps)"

text \<open>\<open>_matchIndent\<close>: \<open>_moveNext(false, true)\<close>, then exactly one more level is required.\<close>

definition matchIndent :: "CodeParser \<Rightarrow> (ParseError + CodeParser) option" where
  "matchIndent ps =
     (let prevStackLength = length (indentationStack (wrapper ps)) in
      map_option
        (\<lambda>r. bindE r (\<lambda>ps1.
           (let newIndentStack = indentationStack (wrapper ps1) in
            if int prevStackLength \<noteq> int (length newIndentStack) - 1 \<or> topIsSentinel newIndentStack
            then Inl ExpectedIndentation
            else Inr ps1)))
        (moveNext False True True ps))"

text \<open>Calling \<open>execute\<close> \<open>n\<close> times in a row, collecting the returned flags.\<close>

fun executeTimes :: "nat \<Rightarrow> CodeExecutor \<Rightarrow> (bool list \<times> CodeExecutor) option" where
  "executeTimes 0 s = Some ([], s)"
| "executeTimes (Suc n) s =
     (case execute s of
        None \<Rightarrow> None
      | Some (b, s1) \<Rightarrow>
          (case executeTimes n s1 of None \<Rightarrow> None | Some (bs, s2) \<Rightarrow> Some (b # bs, s2)))"

text \<open>The states an interpreter can be in: the constructed one, and every state a
  successful call of \<open>execute\<close> leads to.\<close>

inductive reachable :: "ProgramContext \<Rightarrow> CodeExecutor \<Rightarrow> bool" where
  reachable_init: "newCodeExecutor v p = Some s \<Longrightarrow> reachable p s"
| reachable_step: "reachable p s \<Longrightarrow> execute s = Some (b, s') \<Longrightarrow> reachable p s'"

text \<open>The data model's Module has a nonempty list of blocks (the parser builds no other).\<close>

definition nonemptyModules :: "ProgramContext \<Rightarrow> bool" where
  "nonemptyModules p = list_all (\<lambda>m. blocks m \<noteq> []) (modules p)"

section \<open>Invariants of the interpreter\<close>


definition framesAligned :: "CodeExecutor \<Rightarrow> bool" where
  "framesAligned s = (length (currentBlockIndexStack s) = length (currentBlocksStack s))"

definition topInRange :: "CodeExecutor \<Rightarrow> bool" where
  "topInRange s =
     (currentBlocksStack s \<noteq> [] \<and> currentBlockIndexStack s \<noteq> [] \<and>
      last (currentBlockIndexStack s) < length (last (currentBlocksStack s)))"

definition execInv :: "ProgramContext \<Rightarrow> CodeExecutor \<Rightarrow> bool" where
  "execInv p s =
     (program s = p \<and> framesAligned s \<and> (terminationStatus s = None \<longrightarrow> topInRange s))"

section \<open>Invariants of the compiler\<close>

text \<open>
  The label of the block being lowered is made of the top of \<open>_identifierStack\<close>, the
  arguments in the top of \<open>_argumentMapStack\<close> and the counter \<open>_identifierIndexMap\<close> keeps for
  that base identifier. \<open>currentBase\<close> is the key \<open>_getCurrentLabel\<close> looks up in the counter
  map, \<open>currentCounter\<close> the number found there.
\<close>

definition currentBase :: "CodeConverter \<Rightarrow> string option" where
  "currentBase s =
     (case (currentIdentifier s, currentArgs s) of
        (Inr ident, Inr args) \<Rightarrow> Some (baseIdentifier ident args)
      | _ \<Rightarrow> None)"

definition currentCounter :: "CodeConverter \<Rightarrow> nat option" where
  "currentCounter s =
     (case currentBase s of None \<Rightarrow> None | Some k \<Rightarrow> map_of (identifierIndexMap s) k)"

text \<open>
  What lowering a block leaves as it found it: both stacks, and every counter of the map is
  still there and has not gone down.
\<close>

definition countersGrow :: "(string \<times> nat) list \<Rightarrow> (string \<times> nat) list \<Rightarrow> bool" where
  "countersGrow m m' = (\<forall>k i. map_of m k = Some i \<longrightarrow> (\<exists>j. map_of m' k = Some j \<and> i \<le> j))"

definition labelsKept :: "CodeConverter \<Rightarrow> CodeConverter \<Rightarrow> bool" where
  "labelsKept s s' =
     (identifierStack s' = identifierStack s \<and> cv_argumentMapStack s' = cv_argumentMapStack s \<and>
      countersGrow (identifierIndexMap s) (identifierIndexMap s'))"

definition visitKeeps :: "block_visitor \<Rightarrow> bool" where
  "visitKeeps vis = (\<forall>b s s'. vis b s = Inr s' \<longrightarrow> labelsKept s s')"

definition gotoKeeps :: "goto_visitor \<Rightarrow> bool" where
  "gotoKeeps g = (\<forall>i a s l s'. g i a s = Inr (l, s') \<longrightarrow> labelsKept s s')"

text \<open>
  The tag \<open>visitIf\<close> and \<open>visitElse\<close> append to the enclosing label, and the state in which
  \<open>_visitIfOrElse\<close> starts its loop over the blocks of the case: the counter of the new base
  identifier is created by \<open>_generateNextLabel\<close> with \<open>startWith = 1\<close>, then the blocks are
  pushed.
\<close>

fun caseTag :: "CaseContext \<Rightarrow> string" where
  "caseTag (IfCase vs bs) = ifLabel vs"
| "caseTag (ElseCase bs) = ''else''"
| "caseTag (WhileCase vs c) = []"

definition subSequenceStart :: "CaseContext \<Rightarrow> string \<Rightarrow> string list \<Rightarrow> CodeConverter \<Rightarrow> CodeConverter" where
  "subSequenceStart c cl args s =
     cv_pushBlocks (caseBlocks c) (cl @ ''-'' @ caseTag c) False
       (snd (generateNextLabel (cl @ ''-'' @ caseTag c) args 1 s))"

text \<open>
  The state in which \<open>visitModule\<close> starts its loop over the blocks of the module.
\<close>

definition moduleStart :: "ModuleContext \<Rightarrow> string list \<Rightarrow> CodeConverter \<Rightarrow> CodeConverter" where
  "moduleStart m args s =
     recordConstructed (mod_identifier m) args
       (cv_pushBlocks (blocks m) (mod_identifier m) True
          (snd (generateNextLabel (mod_identifier m) args 0 s)))"

section \<open>Example programs\<close>

text \<open>The syntax trees the parser builds for the sources quoted with each program.\<close>

definition basic :: "string option \<Rightarrow> Direction option \<Rightarrow> FlowChangeContext option \<Rightarrow> NormalBlockContext" where
  "basic c m f = BasicBlock (BasicBlockContext c m f)"

text \<open>
  Example 1 of the specification (\<open>singleBlock\<close> of the converter's tests):
  \<^verbatim>\<open>alphabet = [a, b]\<close>, \<^verbatim>\<open>module m():\<close>, \<^verbatim>\<open>changeto blank\<close>, \<^verbatim>\<open>move right\<close>.
\<close>

definition singleBlock :: ProgramContext where
  "singleBlock =
     \<lparr> alphabet = [''a'', ''b''],
       modules = [\<lparr> mod_identifier = ''m'', params = [],
                    blocks = [basic (Some []) (Some RIGHT) None] \<rparr>] \<rparr>"

text \<open>
  \<open>noFlowIf\<close> of the validator's tests ("doesn't throw an error if the if block has no flow
  command"): \<^verbatim>\<open>alphabet = [a, b]\<close>, \<^verbatim>\<open>module a():\<close>, \<^verbatim>\<open>if a, b, blank:\<close>, \<^verbatim>\<open>move left\<close>,
  \<^verbatim>\<open>move right\<close>, \<^verbatim>\<open>changeto blank\<close>. The body of the case is three basic blocks.
\<close>

definition noFlowIf :: ProgramContext where
  "noFlowIf =
     \<lparr> alphabet = [''a'', ''b''],
       modules = [\<lparr> mod_identifier = ''a'', params = [],
                    blocks = [SwitchBlock
                      [IfCase [''a'', ''b'', []]
                         [basic None (Some LEFT) None,
                          basic None (Some RIGHT) None,
                          basic (Some []) None None]]] \<rparr>] \<rparr>"

text \<open>
  A module that is entered with a GoTo carrying an argument:
  \<^verbatim>\<open>alphabet = [a, b]\<close>, \<^verbatim>\<open>module main():\<close>, \<^verbatim>\<open>goto check(a)\<close>, \<^verbatim>\<open>module check(x):\<close>, \<^verbatim>\<open>if x:\<close>,
  \<^verbatim>\<open>accept\<close>, \<^verbatim>\<open>else:\<close>, \<^verbatim>\<open>reject\<close>.
\<close>

definition gotoProgram :: ProgramContext where
  "gotoProgram =
     \<lparr> alphabet = [''a'', ''b''],
       modules =
        [\<lparr> mod_identifier = ''main'', params = [],
           blocks = [basic None None (Some (GoToContext ''check'' [''a'']))] \<rparr>,
         \<lparr> mod_identifier = ''check'', params = [''x''],
           blocks = [SwitchBlock
             [IfCase [''x''] [basic None None (Some (TerminationContext ACCEPT))],
              ElseCase [basic None None (Some (TerminationContext REJECT))]]] \<rparr>] \<rparr>"

text \<open>
  A module with the same parameter name twice, calling itself:
  \<^verbatim>\<open>alphabet = [a, b]\<close>, \<^verbatim>\<open>module main():\<close>, \<^verbatim>\<open>goto m(a, b)\<close>, \<^verbatim>\<open>module m(x, x):\<close>,
  \<^verbatim>\<open>goto m(a, b)\<close>.
\<close>

definition dupParamModule :: ModuleContext where
  "dupParamModule =
     \<lparr> mod_identifier = ''m'', params = [''x'', ''x''],
       blocks = [basic None None (Some (GoToContext ''m'' [''a'', ''b'']))] \<rparr>"

definition dupParams :: ProgramContext where
  "dupParams =
     \<lparr> alphabet = [''a'', ''b''],
       modules =
        [\<lparr> mod_identifier = ''main'', params = [],
           blocks = [basic None None (Some (GoToContext ''m'' [''a'', ''b'']))] \<rparr>,
         dupParamModule] \<rparr>"

text \<open>
  Two modules whose base identifiers coincide: the module \<open>n-a\<close> without parameters, and the
  module \<open>n\<close> called with the argument \<open>a\<close>:
  \<^verbatim>\<open>alphabet = [a]\<close>, \<^verbatim>\<open>module n-a():\<close>, \<^verbatim>\<open>if a:\<close>, \<^verbatim>\<open>goto n(a)\<close>, \<^verbatim>\<open>while blank:\<close>, \<^verbatim>\<open>move right\<close>,
  \<^verbatim>\<open>module n(x):\<close>, \<^verbatim>\<open>accept\<close>.
\<close>

definition collidingLabels :: ProgramContext where
  "collidingLabels =
     \<lparr> alphabet = [''a''],
       modules =
        [\<lparr> mod_identifier = ''n-a'', params = [],
           blocks = [SwitchBlock
             [IfCase [''a''] [basic None None (Some (GoToContext ''n'' [''a'']))],
              WhileCase [[]] (CoreBasicBlockContext None (Some RIGHT))]] \<rparr>,
         \<lparr> mod_identifier = ''n'', params = [''x''],
           blocks = [basic None None (Some (TerminationContext ACCEPT))] \<rparr>] \<rparr>"

text \<open>A program that accepts at once, and the interpreter's state after its only step on
  the empty tape.\<close>

definition acceptProgram :: ProgramContext where
  "acceptProgram =
     \<lparr> alphabet = [''a''],
       modules = [\<lparr> mod_identifier = ''m'', params = [],
                    blocks = [basic None None (Some (TerminationContext ACCEPT))] \<rparr>] \<rparr>"

definition acceptedState :: CodeExecutor where
  "acceptedState =
     \<lparr> terminationStatus = Some ACCEPT, program = acceptProgram,
       currentBlockIndexStack = [0],
       currentBlocksStack = [[basic None None (Some (TerminationContext ACCEPT))]],
       argumentMapStack = [[]],
       topLevelModuleStack = [True],
       tape = \<lparr> valueMap = [], currentIndex = - 1 \<rparr> \<rparr>"


text \<open>
  Parser states right after a block header: the colon of \<^verbatim>\<open>if a:\<close> on line 2, at indentation
  stack \<open>[0, 4]\<close>, is the current token and the given tokens follow.
\<close>

definition tok :: "string \<Rightarrow> nat \<Rightarrow> int list \<Rightarrow> Token" where
  "tok v l st = \<lparr> tok_value = v, tok_line = l, tok_stack = st \<rparr>"

definition atColon :: "Token list \<Rightarrow> CodeParser" where
  "atColon ts =
     \<lparr> wrapper = \<lparr> w_current = Some (tok '':'' 2 [0, 4]), w_rest = ts \<rparr>, reachedEnd = False \<rparr>"

text \<open>
  The converter's states on \<open>dupParams\<close>: \<open>dupStart\<close> is the state in which the blocks of
  \<open>main\<close> are visited (before \<open>main\<close> is recorded as constructed), \<open>dupEntered s\<close> the state
  in which the blocks of \<open>m\<close> are visited when \<open>goto m(a, b)\<close> is lowered in state \<open>s\<close>, and
  \<open>neverConstructed\<close> says that \<open>m\<close> is registered and \<open>_isModuleConstructed("m", [a, b])\<close> is
  false.
\<close>

definition neverConstructed :: "CodeConverter \<Rightarrow> bool" where
  "neverConstructed s =
     (map_of (idToModule s) ''m'' = Some dupParamModule \<and>
      \<not> isModuleConstructed ''m'' [''a'', ''b''] s)"

definition dupEntered :: "CodeConverter \<Rightarrow> CodeConverter" where
  "dupEntered s =
     recordConstructed ''m'' [''b'']
       (cv_pushBlocks (blocks dupParamModule) ''m'' True
          (snd (generateNextLabel ''m'' [''b''] 0
             (cv_generateAndPushArgumentMap [''x'', ''x''] [''a'', ''b''] s))))"

definition dupStart :: CodeConverter where
  "dupStart =
     cv_pushBlocks [basic None None (Some (GoToContext ''m'' [''a'', ''b'']))] ''main'' True
       (snd (generateNextLabel ''main'' [] 0
         ((newCodeConverter dupParams)
            \<lparr> turingMachine := (turingMachine (newCodeConverter dupParams))\<lparr> initialState := ''main-0'' \<rparr>,
              idToModule := fold (\<lambda>m acc. AList.update (mod_identifier m) m acc) (modules dupParams) [],
              cv_argumentMapStack := [[]] \<rparr>)))"

text \<open>
  For the Validator: the trigger values of a Switch Block's cases, in order; "an Else case
  stands last, if at all"; the Validator's state while it visits a module with the parameter
  \<open>x\<close>, and one without parameters, of a program with the alphabet \<open>[a]\<close>; and a program whose
  second module has a Switch Block with the parameter \<open>x\<close> and the unknown letter \<open>z\<close> as
  trigger values: \<^verbatim>\<open>alphabet = [a]\<close>, \<^verbatim>\<open>module main():\<close>, \<^verbatim>\<open>accept\<close>, \<^verbatim>\<open>module b(x):\<close>,
  \<^verbatim>\<open>if x, z:\<close>, \<^verbatim>\<open>accept\<close>.
\<close>

definition triggers :: "CaseContext list \<Rightarrow> string list" where
  "triggers cs = concat (map caseValues cs)"

fun elseOnlyLast :: "CaseContext list \<Rightarrow> bool" where
  "elseOnlyLast [] = True"
| "elseOnlyLast [c] = True"
| "elseOnlyLast (c # cs) = (\<not> isElse c \<and> elseOnlyLast cs)"

definition acceptBlock :: NormalBlockContext where
  "acceptBlock = basic None None (Some (TerminationContext ACCEPT))"

definition paramValidator :: CodeValidator where
  "paramValidator =
     \<lparr> v_alphabet = [''a''], v_moduleNames = [(''main'', 0), (''b'', 1)], v_parameters = [''x''] \<rparr>"

definition plainValidator :: CodeValidator where
  "plainValidator = \<lparr> v_alphabet = [''a''], v_moduleNames = [(''main'', 0)], v_parameters = [] \<rparr>"

definition unknownTrigger :: ProgramContext where
  "unknownTrigger =
     \<lparr> alphabet = [''a''],
       modules =
        [\<lparr> mod_identifier = ''main'', params = [], blocks = [acceptBlock] \<rparr>,
         \<lparr> mod_identifier = ''b'', params = [''x''],
           blocks = [SwitchBlock [IfCase [''x'', ''z''] [acceptBlock]]] \<rparr>] \<rparr>"

text \<open>
  \<open>moduleWithIfBlock\<close> of CodeConverter.spec.ts: the If case on blank has a body of two Basic
  Blocks (\<open>move right\<close>, then \<open>changeto b, move left, goto simple()\<close>).
\<close>

definition moduleWithIfBlock :: ProgramContext where
  "moduleWithIfBlock =
     \<lparr> alphabet = [''a'', ''b''],
       modules = [\<lparr> mod_identifier = ''simple'', params = [],
          blocks = [SwitchBlock
            [IfCase [''a''] [basic None (Some LEFT) None],
             WhileCase [''b''] (CoreBasicBlockContext None (Some RIGHT)),
             IfCase [[]] [basic None (Some RIGHT) None,
                          basic (Some ''b'') (Some LEFT) (Some (GoToContext ''simple'' []))]]] \<rparr>] \<rparr>"

text \<open>
  A parametrised module with two blocks, the first without a flow command:
  \<^verbatim>\<open>alphabet = [a]\<close>, \<^verbatim>\<open>module main():\<close>, \<^verbatim>\<open>goto m(a)\<close>, \<^verbatim>\<open>module m(x):\<close>, \<^verbatim>\<open>move right\<close>,
  \<^verbatim>\<open>move left\<close>.
\<close>

definition fallParam :: ProgramContext where
  "fallParam =
     \<lparr> alphabet = [''a''],
       modules =
        [\<lparr> mod_identifier = ''main'', params = [],
           blocks = [basic None None (Some (GoToContext ''m'' [''a'']))] \<rparr>,
         \<lparr> mod_identifier = ''m'', params = [''x''],
           blocks = [basic None (Some RIGHT) None, basic None (Some LEFT) None] \<rparr>] \<rparr>"

text \<open>
  A Switch Block with the trigger value \<open>a\<close> in two cases:
  \<^verbatim>\<open>alphabet = [a]\<close>, \<^verbatim>\<open>module main():\<close>, \<^verbatim>\<open>if a:\<close>, \<^verbatim>\<open>accept\<close>, \<^verbatim>\<open>if a, blank:\<close>, \<^verbatim>\<open>reject\<close>.
\<close>

definition dupTrig :: ProgramContext where
  "dupTrig =
     \<lparr> alphabet = [''a''],
       modules =
        [\<lparr> mod_identifier = ''main'', params = [],
           blocks = [SwitchBlock
             [IfCase [''a''] [basic None None (Some (TerminationContext ACCEPT))],
              IfCase [''a'', []] [basic None None (Some (TerminationContext REJECT))]]] \<rparr>] \<rparr>"

text \<open>
  An If case of two blocks whose second block goes to a module named like the base
  identifier of the case's sub-sequence:
  \<^verbatim>\<open>alphabet = [a]\<close>, \<^verbatim>\<open>module q():\<close>, \<^verbatim>\<open>if a:\<close>, \<^verbatim>\<open>move right\<close>, \<^verbatim>\<open>move left\<close>, \<^verbatim>\<open>goto q-0-a()\<close>,
  \<^verbatim>\<open>else:\<close>, \<^verbatim>\<open>reject\<close>, \<^verbatim>\<open>module q-0-a():\<close>, \<^verbatim>\<open>accept\<close>.
\<close>

definition sharedBase :: ProgramContext where
  "sharedBase =
     \<lparr> alphabet = [''a''],
       modules =
        [\<lparr> mod_identifier = ''q'', params = [],
           blocks = [SwitchBlock
             [IfCase [''a''] [basic None (Some RIGHT) None,
                             basic None (Some LEFT) (Some (GoToContext ''q-0-a'' []))],
              ElseCase [basic None None (Some (TerminationContext REJECT))]]] \<rparr>,
         \<lparr> mod_identifier = ''q-0-a'', params = [],
           blocks = [basic None None (Some (TerminationContext ACCEPT))] \<rparr>] \<rparr>"

text \<open>
  An If case of two blocks whose first block has a flow command:
  \<^verbatim>\<open>alphabet = [a]\<close>, \<^verbatim>\<open>module main():\<close>, \<^verbatim>\<open>if a:\<close>, \<^verbatim>\<open>move right\<close>, \<^verbatim>\<open>goto f()\<close>, \<^verbatim>\<open>accept\<close>,
  \<^verbatim>\<open>else:\<close>, \<^verbatim>\<open>reject\<close>, \<^verbatim>\<open>module f():\<close>, \<^verbatim>\<open>move right\<close>.
\<close>

definition gotoFirst :: ProgramContext where
  "gotoFirst =
     \<lparr> alphabet = [''a''],
       modules =
        [\<lparr> mod_identifier = ''main'', params = [],
           blocks = [SwitchBlock
             [IfCase [''a''] [basic None (Some RIGHT) (Some (GoToContext ''f'' [])),
                             basic None None (Some (TerminationContext ACCEPT))],
              ElseCase [basic None None (Some (TerminationContext REJECT))]]] \<rparr>,
         \<lparr> mod_identifier = ''f'', params = [],
           blocks = [basic None (Some RIGHT) None] \<rparr>] \<rparr>"

section \<open>Properties of the interpreter\<close>

lemma incrementIndexAndPop_inv:
  "framesAligned s \<Longrightarrow>
   framesAligned (incrementIndexAndPop s) \<and>
   program (incrementIndexAndPop s) = program s \<and>
   terminationStatus (incrementIndexAndPop s) = terminationStatus s \<and>
   (currentBlocksStack (incrementIndexAndPop s) \<noteq> [] \<longrightarrow> topInRange (incrementIndexAndPop s))"
proof (induction s rule: incrementIndexAndPop.induct)
  case (1 s)
  show ?case
  proof (cases "currentBlocksStack s = []")
    case True
    with 1 show ?thesis by (simp add: incrementIndexAndPop.simps)
  next
    case False
    with "1.prems" have ne: "currentBlockIndexStack s \<noteq> []"
      by (auto simp: framesAligned_def)
    show ?thesis
    proof (cases "last (currentBlockIndexStack s) + 1 < length (last (currentBlocksStack s))")
      case True
      with False ne "1.prems" show ?thesis
        by (simp add: incrementIndexAndPop.simps [of s] incrementIndex_def Let_def
            framesAligned_def topInRange_def)
    next
      case nlt: False
      define s1 where "s1 = snd (incrementIndex s)"
      have inc: "incrementIndex s = (False, s1)"
        using ne nlt by (simp add: s1_def incrementIndex_def Let_def)
      have al: "framesAligned (popFrame s1)"
        using "1.prems" ne False
        by (simp add: s1_def incrementIndex_def Let_def popFrame_def framesAligned_def)
      have same: "program (popFrame s1) = program s"
        "terminationStatus (popFrame s1) = terminationStatus s"
        using ne by (simp_all add: s1_def incrementIndex_def Let_def popFrame_def)
      have step: "incrementIndexAndPop s = incrementIndexAndPop (popFrame s1)"
        using False inc by (simp add: incrementIndexAndPop.simps [of s])
      from "1.IH" [OF False inc [symmetric] refl al] same step show ?thesis by simp
    qed
  qed
qed

lemma firstBlock_caseBlocks: "firstBlock c = Some e \<Longrightarrow> isIfOrElse c \<Longrightarrow> caseBlocks c \<noteq> []"
  by (cases c rule: firstBlock.cases) auto

lemma find_module_nonempty:
  "nonemptyModules p \<Longrightarrow> List.find P (modules p) = Some m \<Longrightarrow> blocks m \<noteq> []"
  by (auto simp: nonemptyModules_def list_all_iff find_Some_iff)

lemma execInv_init:
  assumes "nonemptyModules p" "newCodeExecutor v p = Some s"
  shows "execInv p s"
  using assms
  by (auto simp: newCodeExecutor_def execInv_def framesAligned_def topInRange_def
      nonemptyModules_def split: if_splits list.splits)

lemma execInv_step:
  assumes wf: "nonemptyModules p" and inv: "execInv p s" and ex: "execute s = Some (b, s')"
  shows "execInv p s'"
proof (cases "terminationStatus s = None")
  case False
  with ex inv show ?thesis by (simp add: execute_def)
next
  case running: True
  from ex running obtain eb s1 where
    feb: "findExecutionBlock (tape_get (tape s) 0) s = Some (eb, s1)"
    by (auto simp: execute_def Let_def split: option.splits)
  have inv1: "execInv p s1" "terminationStatus s1 = None"
    using feb inv running
    by (auto simp: findExecutionBlock_def execInv_def framesAligned_def topInRange_def
        pushBlocks_def dest: firstBlock_caseBlocks
        split: option.splits NormalBlockContext.splits if_splits)
  define s2 where "s2 = executeBlock eb (tape_get (tape s) 0) s1"
  have inv2: "execInv p s2" "terminationStatus s2 = None"
    using inv1 by (cases eb; simp add: s2_def execBlock_def execInv_def framesAligned_def
        topInRange_def)+
  show ?thesis
  proof (cases eb)
    case (ExecCore c)
    with ex running feb inv2 show ?thesis
      by (simp add: execute_def Let_def s2_def)
  next
    case (ExecBasic bb)
    with ex running feb have fnb: "findNextBlock bb s2 = Some s'"
      by (auto simp: execute_def Let_def s2_def)
    show ?thesis
    proof (cases "flowCommand bb")
      case None
      from inv2 have al: "framesAligned s2" by (simp add: execInv_def)
      from incrementIndexAndPop_inv [OF al] fnb None inv2 show ?thesis
        by (auto simp: findNextBlock_def Let_def execInv_def framesAligned_def topInRange_def
            split: if_splits)
    next
      case (Some f)
      show ?thesis
      proof (cases f)
        case (TerminationContext st)
        with Some fnb inv2 show ?thesis
          by (auto simp: findNextBlock_def execInv_def framesAligned_def)
      next
        case (GoToContext ident args)
        with Some fnb obtain m where
          m: "List.find (\<lambda>m. mod_identifier m = ident) (modules (program s2)) = Some m"
          and s': "s' = generateAndPushArgumentMap (params m) args (pushBlocks (blocks m) True s2)"
          by (auto simp: findNextBlock_def split: option.splits)
        from inv2 have "program s2 = p" by (simp add: execInv_def)
        with find_module_nonempty [OF wf] m have "blocks m \<noteq> []" by simp
        with inv2 s' show ?thesis
          by (simp add: execInv_def framesAligned_def topInRange_def pushBlocks_def
              generateAndPushArgumentMap_def)
      qed
    qed
  qed
qed

lemma reachable_execInv: "reachable p s \<Longrightarrow> nonemptyModules p \<Longrightarrow> execInv p s"
  by (induction rule: reachable.induct) (auto intro: execInv_init execInv_step)

lemma executeTimes_terminated:
  "terminationStatus s \<noteq> None \<Longrightarrow> executeTimes n s = Some (replicate n False, s)"
  by (induction n) (simp_all add: execute_def)


text \<open>
  Claim C10. Once the termination status is set, \<open>execute\<close> returns false and leaves the whole
  state (tape, stacks, status) as it is, however often it is called; and in every state the
  interpreter reaches on a program whose modules have blocks, \<open>currentBlock\<close> is undefined
  exactly when the termination status is defined.
\<close>

theorem execute_after_termination:
  "(terminationStatus s \<noteq> None \<longrightarrow>
      execute s = Some (False, s) \<and> executeTimes n s = Some (replicate n False, s)) \<and>
   (nonemptyModules p \<and> reachable p s \<longrightarrow>
      (currentBlock s = None \<longleftrightarrow> terminationStatus s \<noteq> None))"
proof (intro conjI impI)
  assume "terminationStatus s \<noteq> None"
  then show "execute s = Some (False, s)" by (simp add: execute_def)
next
  assume "terminationStatus s \<noteq> None"
  then show "executeTimes n s = Some (replicate n False, s)" by (rule executeTimes_terminated)
next
  assume "nonemptyModules p \<and> reachable p s"
  then have "execInv p s" by (simp add: reachable_execInv)
  then show "currentBlock s = None \<longleftrightarrow> terminationStatus s \<noteq> None"
    by (auto simp: execInv_def currentBlock_def topInRange_def top_def framesAligned_def)
qed

theorem execute_after_termination_witness:
  "terminationStatus acceptedState \<noteq> None \<and> nonemptyModules acceptProgram \<and>
   reachable acceptProgram acceptedState \<and>
   execute acceptedState = Some (False, acceptedState) \<and>
   executeTimes 2 acceptedState = Some ([False, False], acceptedState) \<and>
   currentBlock acceptedState = None"
proof -
  have t: "terminationStatus acceptedState \<noteq> None" by (simp add: acceptedState_def)
  have w: "nonemptyModules acceptProgram" by code_simp
  obtain s0 where s0: "newCodeExecutor [] acceptProgram = Some s0"
    by (simp add: newCodeExecutor_def validateTapeValue_def acceptProgram_def)
  have "(case newCodeExecutor [] acceptProgram of Some s \<Rightarrow> execute s) = Some (True, acceptedState)"
    by code_simp
  with s0 have "execute s0 = Some (True, acceptedState)" by simp
  with s0 have r: "reachable acceptProgram acceptedState"
    by (blast intro: reachable.intros)
  from execute_after_termination [of acceptedState 2 acceptProgram] t w r
  show ?thesis by (simp add: numeral_2_eq_2)
qed

text \<open>
  Claim C3 at the program \<open>gotoProgram\<close> on the tape \<open>a\<close>: the step that resolves
  \<open>goto check(a)\<close> pushes a module frame, and the binding map it pushes has the argument \<open>a\<close>
  as its key and the parameter \<open>x\<close> as its value; the parameter \<open>x\<close> is not bound. With two
  parameters bound to the same argument value only the last parameter is kept. The
  converter's method of the same name binds parameter to argument.
\<close>

theorem executor_goto_argument_map:
  "(case newCodeExecutor ''a'' gotoProgram of
      None \<Rightarrow> None
    | Some s \<Rightarrow> map_option (\<lambda>(b, s1). (argumentMapStack s1, topLevelModuleStack s1)) (execute s))
     = Some ([[], [(''a'', ''x'')]], [True, True]) \<and>
   map_of (generateArgumentMap [''x''] [''a''] []) ''x'' = None \<and>
   generateArgumentMap [''x'', ''y''] [''a'', ''a''] [] = [(''a'', ''y'')] \<and>
   cv_generateArgumentMap [''x''] [''a''] [] = [(''x'', ''a'')] \<and>
   cv_generateArgumentMap [''x'', ''y''] [''a'', ''a''] [] = [(''x'', ''a''), (''y'', ''a'')]"
  by code_simp

section \<open>Interpreter and compiled automaton\<close>

text \<open>
  Claim C1 at the program \<open>noFlowIf\<close>, which the Validator accepts, on the tape \<open>a\<close>: the
  interpreter ends with the status reject at its third step; the automaton makes the same
  three tape changes, but its third transition leads to the label \<open>a-0-a,b,blank-3\<close>, which
  is no reserved label and has no state, so the driven automaton reaches no status.
\<close>

theorem interpreter_automaton_diverge:
  "valv_validate noFlowIf = Inr () \<and>
   (case newCodeExecutor ''a'' noFlowIf of
      None \<Rightarrow> []
    | Some s \<Rightarrow> map snd (interpreterTrace 5 s)) = [None, None, Some REJECT] \<and>
   (case convert 5 noFlowIf of
      Inl e \<Rightarrow> None
    | Inr tm \<Rightarrow> Some (map snd (automatonTrace 5 tm (initialState tm) (newTMTape ''a'')),
                      getState tm ''a-0-a,b,blank-2'',
                      getState tm ''a-0-a,b,blank-3''))
     = Some ([None, None, None],
             Some (ConstantTMState \<lparr> nextState = ''a-0-a,b,blank-3'', letter = Some [], direction = None \<rparr>),
             None)"
  by code_simp

section \<open>Properties of the parser's advance\<close>

text \<open>
  Claim C9, as stated, fails for its fourth part: a block header whose next token stands on a
  shallower line raises "Unexpected de-indentation.", not "Expected indentation." (the source
  \<open>unexpectedDeIndentation\<close> of the parser's tests).
\<close>

theorem matchIndent_dedent_counterexample:
  "matchIndent (atColon [tok ''move'' 3 [0], tok ''left'' 3 [0]]) = Some (Inl UnexpectedDeIndentation)"
  by code_simp

text \<open>
  Claim C9, amended. Whenever the advance returns: the sentinel on top of the new stack
  raises "Invalid indentation."; otherwise a longer stack where no indent is allowed raises
  "Unexpected indentation.", a shorter stack where no dedent is allowed raises "Unexpected
  de-indentation." (also right after a block header), and otherwise the end of the tokens
  raises "Unexpected end of file." where the caller asks for it (also right after a block
  header); a block header followed by a token at the same depth, or more than one level
  deeper, raises "Expected indentation.", and one followed by exactly one new level succeeds.
  Running out of tokens always returns and sets \<open>reachedEnd\<close>. The error is the result of the
  call: nothing is parsed after it.
\<close>

theorem advance_errors:
  "(w_rest (wrapper ps) = [] \<longrightarrow> advance ps = Some (ps\<lparr> reachedEnd := True \<rparr>)) \<and>
   (advance ps = Some ps1 \<longrightarrow>
    (topIsSentinel (indentationStack (wrapper ps1)) \<longrightarrow>
       moveNext d i t ps = Some (Inl InvalidIndentation) \<and>
       matchIndent ps = Some (Inl InvalidIndentation)) \<and>
    (\<not> topIsSentinel (indentationStack (wrapper ps1)) \<and> \<not> i \<and>
     length (indentationStack (wrapper ps1)) > length (indentationStack (wrapper ps)) \<longrightarrow>
       moveNext d i t ps = Some (Inl UnexpectedIndentation)) \<and>
    (\<not> topIsSentinel (indentationStack (wrapper ps1)) \<and> \<not> d \<and>
     length (indentationStack (wrapper ps1)) < length (indentationStack (wrapper ps)) \<longrightarrow>
       moveNext d i t ps = Some (Inl UnexpectedDeIndentation) \<and>
       matchIndent ps = Some (Inl UnexpectedDeIndentation)) \<and>
    (\<not> topIsSentinel (indentationStack (wrapper ps1)) \<and>
     (d \<or> length (indentationStack (wrapper ps)) \<le> length (indentationStack (wrapper ps1))) \<and>
     (i \<or> length (indentationStack (wrapper ps1)) \<le> length (indentationStack (wrapper ps))) \<and>
     reachedEnd ps1 \<and> t \<longrightarrow>
       moveNext d i t ps = Some (Inl UnexpectedEndOfFile)) \<and>
    (\<not> topIsSentinel (indentationStack (wrapper ps1)) \<and>
     length (indentationStack (wrapper ps)) \<le> length (indentationStack (wrapper ps1)) \<and>
     reachedEnd ps1 \<longrightarrow>
       matchIndent ps = Some (Inl UnexpectedEndOfFile)) \<and>
    (\<not> topIsSentinel (indentationStack (wrapper ps1)) \<and> \<not> reachedEnd ps1 \<and>
     length (indentationStack (wrapper ps)) \<le> length (indentationStack (wrapper ps1)) \<and>
     length (indentationStack (wrapper ps1)) \<noteq> length (indentationStack (wrapper ps)) + 1 \<longrightarrow>
       matchIndent ps = Some (Inl ExpectedIndentation)) \<and>
    (\<not> topIsSentinel (indentationStack (wrapper ps1)) \<and> \<not> reachedEnd ps1 \<and>
     length (indentationStack (wrapper ps1)) = length (indentationStack (wrapper ps)) + 1 \<longrightarrow>
       matchIndent ps = Some (Inr ps1)))"
  by (auto simp: advance_def w_moveNext_def moveNext_def matchIndent_def checkAdvance_def
      Let_def bindE_def)

theorem advance_errors_witness:
  "matchIndent (atColon [tok ''move'' 3 [0, 4], tok ''left'' 3 [0, 4]]) = Some (Inl ExpectedIndentation) \<and>
   moveNext False False True (atColon [tok ''move'' 3 [0, 4, 8]]) = Some (Inl UnexpectedIndentation) \<and>
   moveNext False False True (atColon [tok ''move'' 3 [0, -1]]) = Some (Inl InvalidIndentation) \<and>
   moveNext False False True (atColon [tok ''move'' 3 [0]]) = Some (Inl UnexpectedDeIndentation) \<and>
   moveNext False False True (atColon []) = Some (Inl UnexpectedEndOfFile)"
proof -
  have a1: "advance (atColon [tok ''move'' 3 [0, 4], tok ''left'' 3 [0, 4]]) =
     Some \<lparr> wrapper = \<lparr> w_current = Some (tok ''move'' 3 [0, 4]), w_rest = [tok ''left'' 3 [0, 4]] \<rparr>,
            reachedEnd = False \<rparr>"
    by code_simp
  have a2: "advance (atColon [tok ''move'' 3 [0, 4, 8]]) =
     Some \<lparr> wrapper = \<lparr> w_current = Some (tok ''move'' 3 [0, 4, 8]), w_rest = [] \<rparr>,
            reachedEnd = False \<rparr>"
    by code_simp
  have a3: "advance (atColon [tok ''move'' 3 [0, -1]]) =
     Some \<lparr> wrapper = \<lparr> w_current = Some (tok ''move'' 3 [0, -1]), w_rest = [] \<rparr>,
            reachedEnd = False \<rparr>"
    by code_simp
  have a4: "advance (atColon [tok ''move'' 3 [0]]) =
     Some \<lparr> wrapper = \<lparr> w_current = Some (tok ''move'' 3 [0]), w_rest = [] \<rparr>,
            reachedEnd = False \<rparr>"
    by code_simp
  have a5: "advance (atColon []) =
     Some \<lparr> wrapper = \<lparr> w_current = Some (tok '':'' 2 [0, 4]), w_rest = [] \<rparr>, reachedEnd = True \<rparr>"
    by code_simp
  from advance_errors [of "atColon [tok ''move'' 3 [0, 4], tok ''left'' 3 [0, 4]]" _ False False True]
    advance_errors [of "atColon [tok ''move'' 3 [0, 4, 8]]" _ False False True]
    advance_errors [of "atColon [tok ''move'' 3 [0, -1]]" _ False False True]
    advance_errors [of "atColon [tok ''move'' 3 [0]]" _ False False True]
    advance_errors [of "atColon []" _ False False True]
    a1 a2 a3 a4 a5
  show ?thesis
    by (simp add: indentationStack_def atColon_def tok_def topIsSentinel_def)
qed

section \<open>Properties of the validator\<close>

lemma bindE_simps [simp]: "bindE (Inl e) f = Inl e" "bindE (Inr x) f = f x"
  by (simp_all add: bindE_def)

lemma bindE_Inr_iff: "bindE m f = Inr y \<longleftrightarrow> (\<exists>x. m = Inr x \<and> f x = Inr y)"
  by (cases m) simp_all

lemma triggers_simps [simp]:
  "triggers [] = []" "triggers (c # cs) = caseValues c @ triggers cs"
  by (simp_all add: triggers_def)

lemma isElse_caseValues: "isElse c \<Longrightarrow> caseValues c = []"
  by (cases c) auto

lemma noElse_elseOnlyLast: "\<not> list_ex isElse cs \<Longrightarrow> elseOnlyLast cs"
  by (induction cs rule: elseOnlyLast.induct) auto

subsection \<open>The else-required rule\<close>

lemma valv_switchLetters_result:
  "valv_switchLetters v ls (a, p) = Inr (a', p') \<Longrightarrow>
   p' = (p \<or> (\<exists>l\<in>set ls. l \<in> set (v_parameters v)))"
  by (induction ls arbitrary: a p) (auto split: if_splits)

lemma valv_switchCasesScan_result:
  "valv_switchCasesScan v cs (a, e, p) = Inr (a', e', p') \<Longrightarrow>
   e' = (e \<or> list_ex isElse cs) \<and> p' = (p \<or> (\<exists>l\<in>set (triggers cs). l \<in> set (v_parameters v)))"
proof (induction cs arbitrary: a e p)
  case Nil
  then show ?case by simp
next
  case (Cons c cs)
  show ?case
  proof (cases "isElse c")
    case True
    with Cons.prems show ?thesis
      by (auto simp: isElse_caseValues split: if_splits)
  next
    case False
    with Cons.prems obtain a1 p1 where
      l: "valv_switchLetters v (caseValues c) (a, p) = Inr (a1, p1)"
      and r: "valv_switchCasesScan v cs (a1, e, p1) = Inr (a', e', p')"
      by (auto simp: bindE_Inr_iff)
    from valv_switchLetters_result [OF l] Cons.IH [OF r] False show ?thesis
      by auto
  qed
qed

lemma valv_switchLetters_known:
  "list_all (\<lambda>l. l \<in> set (v_parameters v) \<or> l = [] \<or> l \<in> set (v_alphabet v)) ls \<Longrightarrow>
   \<exists>st. valv_switchLetters v ls (a, p) = Inr st"
  by (induction ls arbitrary: a p) auto

lemma valv_switchCasesScan_known:
  "list_all (\<lambda>l. l \<in> set (v_parameters v) \<or> l = [] \<or> l \<in> set (v_alphabet v)) (triggers cs) \<Longrightarrow>
   elseOnlyLast cs \<Longrightarrow> \<exists>st. valv_switchCasesScan v cs (a, e, p) = Inr st"
proof (induction cs arbitrary: a e p rule: elseOnlyLast.induct)
  case 1
  then show ?case by simp
next
  case (2 c)
  then show ?case
    using valv_switchLetters_known [of v "caseValues c" a p]
    by (auto simp: bindE_Inr_iff)
next
  case (3 c c' cs)
  from 3 obtain a1 p1 where l: "valv_switchLetters v (caseValues c) (a, p) = Inr (a1, p1)"
    using valv_switchLetters_known [of v "caseValues c" a p] by auto
  from 3 have "\<exists>st. valv_switchCasesScan v (c' # cs) (a1, e, p1) = Inr st"
    by simp
  with 3 l show ?case by (auto simp: bindE_Inr_iff)
qed

text \<open>
  Claim C4, as stated, fails where an earlier check raises first: in the module \<open>b(x)\<close> of
  \<open>unknownTrigger\<close> the Switch Block has no Else case and the parameter \<open>x\<close> among its trigger
  values, and the Validator raises "The letter "z" is not part of the alphabet.".
\<close>

theorem param_trigger_without_else_counterexample:
  "valv_validate unknownTrigger = Inl (LetterNotInAlphabet ''z'') \<and>
   valv_visitSwitchBlock paramValidator [IfCase [''x'', ''z''] [acceptBlock]]
     = Inl (LetterNotInAlphabet ''z'')"
  by code_simp

text \<open>
  Claim C4, amended. A Switch Block with no Else case and a bound parameter among its trigger
  values is never accepted; the error is "must have an else case" whenever every trigger value
  is a parameter, blank or an alphabet symbol and visiting the cases raises nothing (these
  checks come first). Conversely, with an Else case in last position, such trigger values and
  cases that raise nothing, the Switch Block is accepted: no coverage error is raised.
\<close>

theorem param_trigger_needs_else:
  "(\<not> list_ex isElse cs \<and> (\<exists>l\<in>set (triggers cs). l \<in> set (v_parameters v)) \<longrightarrow>
      (\<exists>e. valv_visitSwitchBlock v cs = Inl e) \<and>
      (list_all (\<lambda>l. l \<in> set (v_parameters v) \<or> l = [] \<or> l \<in> set (v_alphabet v)) (triggers cs) \<and>
       valv_visitAllCases v cs = Inr () \<longrightarrow>
         valv_visitSwitchBlock v cs = Inl MustHaveElse)) \<and>
   (list_ex isElse cs \<and> elseOnlyLast cs \<and>
    list_all (\<lambda>l. l \<in> set (v_parameters v) \<or> l = [] \<or> l \<in> set (v_alphabet v)) (triggers cs) \<and>
    valv_visitAllCases v cs = Inr () \<longrightarrow>
      valv_visitSwitchBlock v cs = Inr ())"
proof (intro conjI impI)
  assume h: "\<not> list_ex isElse cs \<and> (\<exists>l\<in>set (triggers cs). l \<in> set (v_parameters v))"
  show "\<exists>e. valv_visitSwitchBlock v cs = Inl e"
  proof (cases "valv_switchCasesScan v cs (switchAlphabetSet v, False, False)")
    case (Inl e)
    then show ?thesis by (simp add: valv_visitSwitchBlock_def)
  next
    case (Inr st)
    obtain a' e' p' where st: "st = (a', e', p')" by (cases st) auto
    from valv_switchCasesScan_result [OF Inr [unfolded st]] h have "\<not> e'" "p'" by auto
    with Inr st show ?thesis
      by (cases "valv_visitAllCases v cs") (simp_all add: valv_visitSwitchBlock_def valv_coverage_def)
  qed
next
  assume h: "\<not> list_ex isElse cs \<and> (\<exists>l\<in>set (triggers cs). l \<in> set (v_parameters v))"
    and k: "list_all (\<lambda>l. l \<in> set (v_parameters v) \<or> l = [] \<or> l \<in> set (v_alphabet v)) (triggers cs) \<and>
       valv_visitAllCases v cs = Inr ()"
  from h have eol: "elseOnlyLast cs" by (simp add: noElse_elseOnlyLast)
  from valv_switchCasesScan_known [OF _ eol] k obtain st where
    sc: "valv_switchCasesScan v cs (switchAlphabetSet v, False, False) = Inr st" by blast
  obtain a' e' p' where st: "st = (a', e', p')" by (cases st) auto
  from valv_switchCasesScan_result [OF sc [unfolded st]] h have "\<not> e'" "p'" by auto
  with sc st k show "valv_visitSwitchBlock v cs = Inl MustHaveElse"
    by (simp add: valv_visitSwitchBlock_def valv_coverage_def)
next
  assume h: "list_ex isElse cs \<and> elseOnlyLast cs \<and>
    list_all (\<lambda>l. l \<in> set (v_parameters v) \<or> l = [] \<or> l \<in> set (v_alphabet v)) (triggers cs) \<and>
    valv_visitAllCases v cs = Inr ()"
  from valv_switchCasesScan_known [of v cs] h obtain st where
    sc: "valv_switchCasesScan v cs (switchAlphabetSet v, False, False) = Inr st" by blast
  obtain a' e' p' where st: "st = (a', e', p')" by (cases st) auto
  from valv_switchCasesScan_result [OF sc [unfolded st]] h have "e'" by auto
  with sc st h show "valv_visitSwitchBlock v cs = Inr ()"
    by (simp add: valv_visitSwitchBlock_def valv_coverage_def)
qed

theorem param_trigger_needs_else_witness:
  "valv_visitSwitchBlock paramValidator [IfCase [''a''] [acceptBlock], IfCase [[], ''x''] [acceptBlock]]
     = Inl MustHaveElse \<and>
   valv_visitSwitchBlock paramValidator [IfCase [''a'', ''x''] [acceptBlock], ElseCase [acceptBlock]]
     = Inr ()"
proof -
  have 1: "\<not> list_ex isElse [IfCase [''a''] [acceptBlock], IfCase [[], ''x''] [acceptBlock]]" by simp
  have 2: "\<exists>l\<in>set (triggers [IfCase [''a''] [acceptBlock], IfCase [[], ''x''] [acceptBlock]]).
      l \<in> set (v_parameters paramValidator)" by (simp add: paramValidator_def)
  have 3: "list_all (\<lambda>l. l \<in> set (v_parameters paramValidator) \<or> l = [] \<or> l \<in> set (v_alphabet paramValidator))
      (triggers [IfCase [''a''] [acceptBlock], IfCase [[], ''x''] [acceptBlock]])"
    by (simp add: paramValidator_def)
  have 4: "valv_visitAllCases paramValidator [IfCase [''a''] [acceptBlock], IfCase [[], ''x''] [acceptBlock]] = Inr ()"
    by code_simp
  have 5: "list_ex isElse [IfCase [''a'', ''x''] [acceptBlock], ElseCase [acceptBlock]]" by simp
  have 6: "elseOnlyLast [IfCase [''a'', ''x''] [acceptBlock], ElseCase [acceptBlock]]" by simp
  have 7: "list_all (\<lambda>l. l \<in> set (v_parameters paramValidator) \<or> l = [] \<or> l \<in> set (v_alphabet paramValidator))
      (triggers [IfCase [''a'', ''x''] [acceptBlock], ElseCase [acceptBlock]])"
    by (simp add: paramValidator_def)
  have 8: "valv_visitAllCases paramValidator [IfCase [''a'', ''x''] [acceptBlock], ElseCase [acceptBlock]] = Inr ()"
    by code_simp
  from param_trigger_needs_else [of "[IfCase [''a''] [acceptBlock], IfCase [[], ''x''] [acceptBlock]]" paramValidator]
    param_trigger_needs_else [of "[IfCase [''a'', ''x''] [acceptBlock], ElseCase [acceptBlock]]" paramValidator]
    1 2 3 4 5 6 7 8
  show ?thesis by blast
qed

subsection \<open>Duplicate trigger values (CodeValidator.ts)\<close>

lemma val_switchLetters_result:
  "val_switchLetters v ls a = Inr a' \<Longrightarrow>
   distinct ls \<and> set ls \<subseteq> set a \<and> set a' = set a - set ls \<and>
   (\<forall>l\<in>set ls. l = [] \<or> l \<in> set (v_alphabet v))"
proof (induction ls arbitrary: a)
  case Nil
  then show ?case by simp
next
  case (Cons l ls)
  from Cons.prems have ok: "l = [] \<or> l \<in> set (v_alphabet v)" "l \<in> set a"
    and r: "val_switchLetters v ls (removeAll l a) = Inr a'"
    by (auto split: if_splits)
  from Cons.IH [OF r] ok show ?case by auto
qed

lemma val_switchCases_result:
  "val_switchCases v cs (a, e, f) = Inr (a', e', f') \<Longrightarrow>
   distinct (triggers cs) \<and> set (triggers cs) \<subseteq> set a \<and> set a' = set a - set (triggers cs) \<and>
   (\<forall>l\<in>set (triggers cs). l = [] \<or> l \<in> set (v_alphabet v)) \<and>
   e' = (e \<or> list_ex isElse cs)"
proof (induction cs arbitrary: a e f)
  case Nil
  then show ?case by simp
next
  case (Cons c cs)
  show ?case
  proof (cases "isElse c")
    case True
    with Cons.prems have "cs = []" by (auto simp: bindE_Inr_iff split: if_splits)
    with Cons.prems True show ?thesis
      by (auto simp: bindE_Inr_iff isElse_caseValues split: if_splits)
  next
    case False
    with Cons.prems obtain a1 r where
      l: "val_switchLetters v (caseValues c) a = Inr a1"
      and r: "val_switchCases v cs (a1, e, f \<or> r) = Inr (a', e', f')"
      by (auto simp: bindE_Inr_iff)
    from val_switchLetters_result [OF l] Cons.IH [OF r] False show ?thesis
      by auto
  qed
qed

lemma val_switchLetters_valid:
  assumes "\<forall>l\<in>set ls. l = [] \<or> l \<in> set (v_alphabet v)"
  shows "(distinct ls \<and> set ls \<subseteq> set a \<longrightarrow> (\<exists>a'. val_switchLetters v ls a = Inr a')) \<and>
         (\<not> (distinct ls \<and> set ls \<subseteq> set a) \<longrightarrow> (\<exists>l. val_switchLetters v ls a = Inl (MultipleCases l)))"
  using assms
proof (induction ls arbitrary: a)
  case Nil
  then show ?case by simp
next
  case (Cons l ls)
  then have ok: "\<not> (l \<noteq> [] \<and> l \<notin> set (v_alphabet v))"
    and rest: "\<forall>l\<in>set ls. l = [] \<or> l \<in> set (v_alphabet v)" by auto
  show ?case
  proof (cases "l \<in> set a")
    case False
    with ok show ?thesis by auto
  next
    case True
    have eq: "(distinct (l # ls) \<and> set (l # ls) \<subseteq> set a) =
              (distinct ls \<and> set ls \<subseteq> set (removeAll l a))"
      using True by auto
    from Cons.IH [OF rest, of "removeAll l a"] True ok show ?thesis
      unfolding eq by auto
  qed
qed

lemma val_switchCases_duplicate:
  assumes "\<forall>l\<in>set (triggers cs). l = [] \<or> l \<in> set (v_alphabet v)"
    and "elseOnlyLast cs"
    and "list_all (\<lambda>c. \<exists>r. val_visitCase v c = Inr r) cs"
    and "\<not> (distinct (triggers cs) \<and> set (triggers cs) \<subseteq> set a)"
  shows "\<exists>l. val_switchCases v cs (a, e, f) = Inl (MultipleCases l)"
  using assms
proof (induction cs arbitrary: a e f rule: elseOnlyLast.induct)
  case 1
  then show ?case by simp
next
  case (2 c)
  show ?case
  proof (cases "isElse c")
    case True
    with 2 show ?thesis by (simp add: isElse_caseValues)
  next
    case False
    from 2 have v: "\<forall>l\<in>set (caseValues c). l = [] \<or> l \<in> set (v_alphabet v)" by simp
    from 2 have "\<not> (distinct (caseValues c) \<and> set (caseValues c) \<subseteq> set a)" by simp
    with val_switchLetters_valid [OF v, of a] obtain l where
      "val_switchLetters v (caseValues c) a = Inl (MultipleCases l)" by blast
    with False show ?thesis by simp
  qed
next
  case (3 c c' cs)
  then have ne: "\<not> isElse c" by simp
  from 3 have v: "\<forall>l\<in>set (caseValues c). l = [] \<or> l \<in> set (v_alphabet v)" by simp
  show ?case
  proof (cases "distinct (caseValues c) \<and> set (caseValues c) \<subseteq> set a")
    case False
    with val_switchLetters_valid [OF v, of a] obtain l where
      "val_switchLetters v (caseValues c) a = Inl (MultipleCases l)" by blast
    with ne show ?thesis by simp
  next
    case True
    with val_switchLetters_valid [OF v, of a] obtain a1 where
      a1: "val_switchLetters v (caseValues c) a = Inr a1" by blast
    from val_switchLetters_result [OF a1] have sa: "set a1 = set a - set (caseValues c)" by simp
    from "3.prems"(3) obtain r where r: "val_visitCase v c = Inr r" by auto
    have dup: "\<not> (distinct (triggers (c' # cs)) \<and> set (triggers (c' # cs)) \<subseteq> set a1)"
      using "3.prems"(4) True sa by auto
    from "3.prems" have "\<exists>l. val_switchCases v (c' # cs) (a1, e, f \<or> r) = Inl (MultipleCases l)"
      by (intro "3.IH" dup) (simp_all add: ne)
    with a1 r ne show ?thesis by simp
  qed
qed

lemma set_set_add [simp]: "set (set_add x xs) = insert x (set xs)"
  by (auto simp: set_add_def)

lemma set_fold_set_add [simp]: "set (fold set_add xs acc) = set acc \<union> set xs"
  by (induction xs arbitrary: acc) auto

lemma set_switchAlphabetSet:
  "set (switchAlphabetSet v) = set (v_alphabet v) \<union> {[]} \<union> set (v_parameters v)"
  by (simp add: switchAlphabetSet_def)

text \<open>
  CodeValidator.ts detects repeated trigger values. A Switch Block that it accepts has
  pairwise distinct trigger values, all of them alphabet symbols or blank, and without an
  Else case they are exactly the alphabet symbols and blank: each is covered exactly once
  (and the module has no parameter outside them). When all trigger values are alphabet
  symbols or blank, an Else case stands last if at all, and visiting the cases raises
  nothing, a trigger value that occurs twice (in one case or in two) raises "Multiple cases
  present for letter".
\<close>

theorem duplicate_trigger_rejected:
  "(val_visitSwitchBlock v cs = Inr r \<longrightarrow>
      distinct (triggers cs) \<and>
      (\<forall>l\<in>set (triggers cs). l = [] \<or> l \<in> set (v_alphabet v)) \<and>
      (\<not> list_ex isElse cs \<longrightarrow>
         set (triggers cs) = set (v_alphabet v) \<union> {[]} \<and>
         set (v_parameters v) \<subseteq> set (v_alphabet v) \<union> {[]})) \<and>
   ((\<forall>l\<in>set (triggers cs). l = [] \<or> l \<in> set (v_alphabet v)) \<and> elseOnlyLast cs \<and>
    list_all (\<lambda>c. \<exists>r. val_visitCase v c = Inr r) cs \<and> \<not> distinct (triggers cs) \<longrightarrow>
      (\<exists>l. val_visitSwitchBlock v cs = Inl (MultipleCases l)))"
proof (intro conjI impI)
  assume a: "val_visitSwitchBlock v cs = Inr r"
  then obtain a' e' f' where
    sc: "val_switchCases v cs (switchAlphabetSet v, False, False) = Inr (a', e', f')"
    and cov: "\<not> (\<not> e' \<and> a' \<noteq> [])"
    by (auto simp: val_visitSwitchBlock_def bindE_Inr_iff split: if_splits)
  note res = val_switchCases_result [OF sc]
  from res show "distinct (triggers cs)" by simp
  from res show "\<forall>l\<in>set (triggers cs). l = [] \<or> l \<in> set (v_alphabet v)" by simp
  {
    assume ne: "\<not> list_ex isElse cs"
    with res cov have "a' = []" by simp
    with res have eq: "set (triggers cs) = set (switchAlphabetSet v)" by auto
    with res show "set (triggers cs) = set (v_alphabet v) \<union> {[]}"
      by (auto simp: set_switchAlphabetSet)
    from eq res show "set (v_parameters v) \<subseteq> set (v_alphabet v) \<union> {[]}"
      by (auto simp: set_switchAlphabetSet)
  }
next
  assume h: "(\<forall>l\<in>set (triggers cs). l = [] \<or> l \<in> set (v_alphabet v)) \<and> elseOnlyLast cs \<and>
    list_all (\<lambda>c. \<exists>r. val_visitCase v c = Inr r) cs \<and> \<not> distinct (triggers cs)"
  then have "\<exists>l. val_switchCases v cs (switchAlphabetSet v, False, False) = Inl (MultipleCases l)"
    by (intro val_switchCases_duplicate) auto
  then show "\<exists>l. val_visitSwitchBlock v cs = Inl (MultipleCases l)"
    by (auto simp: val_visitSwitchBlock_def)
qed

theorem duplicate_trigger_rejected_witness:
  "val_visitSwitchBlock plainValidator [IfCase [''a''] [acceptBlock], IfCase [[], ''a''] [acceptBlock]]
     = Inl (MultipleCases ''a'') \<and>
   val_visitSwitchBlock plainValidator [IfCase [''a''] [acceptBlock], IfCase [[]] [acceptBlock]]
     = Inr True \<and>
   distinct (triggers [IfCase [''a''] [acceptBlock], IfCase [[]] [acceptBlock]]) \<and>
   set (triggers [IfCase [''a''] [acceptBlock], IfCase [[]] [acceptBlock]]) = {''a'', []}"
proof -
  have 1: "\<forall>l\<in>set (triggers [IfCase [''a''] [acceptBlock], IfCase [[], ''a''] [acceptBlock]]).
      l = [] \<or> l \<in> set (v_alphabet plainValidator)"
    by (simp add: plainValidator_def)
  have v: "val_visitCase plainValidator (IfCase [''a''] [acceptBlock]) = Inr True"
    "val_visitCase plainValidator (IfCase [[], ''a''] [acceptBlock]) = Inr True"
    by code_simp+
  have 2: "list_all (\<lambda>c. \<exists>r. val_visitCase plainValidator c = Inr r)
      [IfCase [''a''] [acceptBlock], IfCase [[], ''a''] [acceptBlock]]"
    unfolding list.pred_inject v by (intro conjI exI [of _ True]) simp_all
  have 3: "\<not> distinct (triggers [IfCase [''a''] [acceptBlock], IfCase [[], ''a''] [acceptBlock]])"
    "elseOnlyLast [IfCase [''a''] [acceptBlock], IfCase [[], ''a''] [acceptBlock]]"
    by simp_all
  have 4: "val_visitSwitchBlock plainValidator [IfCase [''a''] [acceptBlock], IfCase [[], ''a''] [acceptBlock]]
     = Inl (MultipleCases ''a'')" by code_simp
  have 5: "val_visitSwitchBlock plainValidator [IfCase [''a''] [acceptBlock], IfCase [[]] [acceptBlock]]
     = Inr True" by code_simp
  from duplicate_trigger_rejected
      [of plainValidator "[IfCase [''a''] [acceptBlock], IfCase [[]] [acceptBlock]]" True]
    duplicate_trigger_rejected
      [of plainValidator "[IfCase [''a''] [acceptBlock], IfCase [[], ''a''] [acceptBlock]]"]
    1 2 3 4 5
  show ?thesis by (auto simp: plainValidator_def)
qed

subsection \<open>Duplicate trigger values (the version with the else-required rule)\<close>

text \<open>
  Claim C8 at the program \<open>dupTrig\<close>, whose Switch Block has the trigger value \<open>a\<close> in two
  cases. The Validator (the version with the else-required rule) calls \<open>alphabetSet.delete\<close>
  and drops its result, so it raises no error and accepts the program, where CodeValidator.ts
  raises "Multiple cases present for letter" on the same Switch Block. In the compiled
  automaton the second case overwrites the transition on \<open>a\<close> of the first: on the tape \<open>a\<close>
  the interpreter, which takes the first case that applies, accepts, and the automaton
  rejects.
\<close>

theorem duplicate_trigger_accepted:
  "valv_validate dupTrig = Inr () \<and>
   val_visitSwitchBlock plainValidator
     [IfCase [''a''] [basic None None (Some (TerminationContext ACCEPT))],
      IfCase [''a'', []] [basic None None (Some (TerminationContext REJECT))]]
     = Inl (MultipleCases ''a'') \<and>
   (case newCodeExecutor ''a'' dupTrig of
      None \<Rightarrow> []
    | Some s \<Rightarrow> map snd (interpreterTrace 5 s)) = [Some ACCEPT] \<and>
   convert 5 dupTrig =
     Inr \<lparr> initialState = ''main-0'', tm_alphabet = [''a''],
           states =
             [(''main-0'', VariableTMState
                 [(''a'', \<lparr> nextState = ''reject'', letter = None, direction = None \<rparr>),
                  ([], \<lparr> nextState = ''reject'', letter = None, direction = None \<rparr>)])] \<rparr> \<and>
   (case convert 5 dupTrig of
      Inl e \<Rightarrow> None
    | Inr tm \<Rightarrow> Some (map snd (automatonTrace 5 tm (initialState tm) (newTMTape ''a''))))
     = Some [Some REJECT]"
  by code_simp

section \<open>Properties of the compiler\<close>

lemma visit_0 [simp]: "visit 0 b s = Inl OutOfFuel"
  by simp

lemma visit_Suc_basic [simp]:
  "visit (Suc n) (BasicBlock bb) s = visitBasicBlock (visitGoTo (visit n)) bb s"
  by simp

lemma visit_Suc_switch [simp]:
  "visit (Suc n) (SwitchBlock cs) s = visitSwitchBlock (visit n) (visitGoTo (visit n)) cs s"
  by simp

declare visit.simps [simp del]

subsection \<open>Basic blocks\<close>

lemma getState_cv_addState [simp]:
  "getState (turingMachine (cv_addState label st s)) label = Some st"
  by (simp add: getState_def cv_addState_def addState_def update_conv')

lemma getCurrentLabel_cv_addState [simp]:
  "getCurrentLabel a (cv_addState label st s) = getCurrentLabel a s"
  by (simp add: getCurrentLabel_def cv_addState_def currentArgs_def currentIdentifier_def
      cv_currentArgumentMap_def)

lemma cv_currentArgumentMap_cv_addState [simp]:
  "cv_currentArgumentMap (cv_addState label st s) = cv_currentArgumentMap s"
  by (simp add: cv_addState_def cv_currentArgumentMap_def)

lemma nextLetter_cv_addState [simp]:
  "nextLetter c (cv_addState label st s) = nextLetter c s"
  by (cases c) (simp_all add: nextLetter_def)

text \<open>
  Whenever a Basic Block is lowered, the automaton holds, under the block's label, a Constant
  State whose transition writes the ChangeTo symbol (the argument bound to it, should it be
  a bound parameter name) and nothing without a ChangeTo, so that the symbol read is kept,
  and moves as the Move command says and left without one.
\<close>

lemma basic_block_write_and_move:
  assumes a: "visitBasicBlock (visitGoTo (visit n)) b s = Inr s'"
  shows "\<exists>label change.
        getCurrentLabel True s' = Inr label \<and>
        getState (turingMachine s') label = Some (ConstantTMState change) \<and>
        (changeToCommand b = None \<longrightarrow> letter change = None) \<and>
        (\<forall>v. changeToCommand b = Some v \<longrightarrow>
           (\<exists>m. cv_currentArgumentMap s' = Inr m \<and> letter change = Some (getNextValue v m) \<and>
                 (map_of m v = None \<longrightarrow> letter change = Some v))) \<and>
        direction change = moveCommand b \<and>
        (\<forall>l. transition (ConstantTMState change) l =
           Some \<lparr> tm_nextState = nextState change,
                  tm_letter = (case letter change of None \<Rightarrow> l | Some v \<Rightarrow> v),
                  tm_direction = (case moveCommand b of None \<Rightarrow> LEFT | Some d \<Rightarrow> d) \<rparr>)"
proof -
  from a obtain change s1 label where
    g: "getTMChangeForBasicBlock (visitGoTo (visit n)) b s = Inr (change, s1)"
    and l: "getCurrentLabel True s1 = Inr label"
    and s': "s' = cv_addState label (ConstantTMState change) s1"
    by (auto simp: visitBasicBlock_def bindE_Inr_iff)
  from g have lt: "nextLetter (changeToCommand b) s1 = Inr (letter change)"
    and ch: "direction change = moveCommand b"
    by (auto simp: getTMChangeForBasicBlock_def bindE_Inr_iff)
  have lt2: "(changeToCommand b = None \<longrightarrow> letter change = None) \<and>
        (\<forall>v. changeToCommand b = Some v \<longrightarrow>
           (\<exists>m. cv_currentArgumentMap s1 = Inr m \<and> letter change = Some (getNextValue v m) \<and>
                 (map_of m v = None \<longrightarrow> letter change = Some v)))"
    using lt
    by (auto simp: nextLetter_def bindE_Inr_iff getNextValue_def resolveValue_def
        split: option.splits)
  have tr: "\<forall>l. transition (ConstantTMState change) l =
           Some \<lparr> tm_nextState = nextState change,
                  tm_letter = (case letter change of None \<Rightarrow> l | Some v \<Rightarrow> v),
                  tm_direction = (case moveCommand b of None \<Rightarrow> LEFT | Some d \<Rightarrow> d) \<rparr>"
    using ch by (simp add: completeChange_def)
  show ?thesis
    apply (rule exI [of _ label], rule exI [of _ change])
    using l lt2 ch tr by (simp add: s')
qed

text \<open>
  Example 1 of the specification compiles, for every depth that admits one block, to the
  single Constant State with \<open>write blank, move right, next reject\<close>.
\<close>

lemma singleBlock_converts:
  "convert (Suc n) singleBlock =
     Inr \<lparr> initialState = ''m-0'', tm_alphabet = [''a'', ''b''],
           states = [(''m-0'', ConstantTMState
                       \<lparr> nextState = ''reject'', letter = Some [], direction = Some RIGHT \<rparr>)] \<rparr>"
proof -
  have "visitModule (visit (Suc n)) (hd (modules singleBlock))
          ((newCodeConverter singleBlock)
             \<lparr> turingMachine := (turingMachine (newCodeConverter singleBlock))\<lparr> initialState := ''m-0'' \<rparr>,
               idToModule := fold (\<lambda>m acc. AList.update (mod_identifier m) m acc)
                               (modules singleBlock) [],
               cv_argumentMapStack := [[]] \<rparr>) =
        Inr ((newCodeConverter singleBlock)
             \<lparr> turingMachine := \<lparr> initialState = ''m-0'', tm_alphabet = [''a'', ''b''],
                   states = [(''m-0'', ConstantTMState
                       \<lparr> nextState = ''reject'', letter = Some [], direction = Some RIGHT \<rparr>)] \<rparr>,
               idToModule := fold (\<lambda>m acc. AList.update (mod_identifier m) m acc)
                               (modules singleBlock) [],
               constructedModules := [(''m'', [[]])],
               identifierIndexMap := [(''m'', 1)],
               cv_argumentMapStack := [] \<rparr>)"
    by (simp add: visitModule_def
        visitBasicBlock_def getTMChangeForBasicBlock_def
        incrementIndexAndFindNextState_def
        singleBlock_def basic_def cv_pushBlocks_def generateNextLabel_def Let_def
        recordConstructed_def newCodeConverter_def orReject_def nextLetter_def
        cv_currentArgumentMap_def top_def orTypeError_def getNextValue_def resolveValue_def
        getCurrentLabel_def currentArgs_def currentIdentifier_def baseIdentifier_def
        string_of_nat.simps cv_incrementIndex_def popBlocks_def cv_addState_def addState_def
        newSet_def set_add_def)
  then show ?thesis
    by (simp add: convert_def visitProgram_def singleBlock_def newCodeConverter_def)
qed

text \<open>
  Claim C5 at the program \<open>fallParam\<close>, which the Validator accepts. The first block of the
  module \<open>m\<close>, lowered for the argument \<open>a\<close>, is the state \<open>m-a-0\<close>; it has no flow command and
  the next block of its sequence is the state \<open>m-a-1\<close>, but its transition's next state is
  \<open>mx-NaN\<close>, which is no reserved label and has no state: \<open>_findNextLabel\<close> looks the counter
  up under the identifier followed by the parameter names (\<open>mx\<close>), where it is kept under
  the identifier, \<open>-\<close> and the argument values (\<open>m-a\<close>).
\<close>

theorem basic_block_fallthrough_label:
  "valv_validate fallParam = Inr () \<and>
   convert 5 fallParam =
     Inr \<lparr> initialState = ''main-0'', tm_alphabet = [''a''],
           states =
             [(''m-a-0'', ConstantTMState
                 \<lparr> nextState = ''mx-NaN'', letter = None, direction = Some RIGHT \<rparr>),
              (''m-a-1'', ConstantTMState
                 \<lparr> nextState = ''reject'', letter = None, direction = Some LEFT \<rparr>),
              (''main-0'', ConstantTMState
                 \<lparr> nextState = ''m-a-0'', letter = None, direction = None \<rparr>)] \<rparr>"
  by code_simp

subsection \<open>A module with a repeated parameter name\<close>

lemma dupParamModule_fields [simp]:
  "mod_identifier dupParamModule = ''m''"
  "params dupParamModule = [''x'', ''x'']"
  "blocks dupParamModule = [basic None None (Some (GoToContext ''m'' [''a'', ''b'']))]"
  by (simp_all add: dupParamModule_def)

lemma dupEntered_neverConstructed: "neverConstructed s \<Longrightarrow> neverConstructed (dupEntered s)"
  by (auto simp: neverConstructed_def dupEntered_def recordConstructed_def
      isModuleConstructed_def cv_pushBlocks_def generateNextLabel_def Let_def
      cv_generateAndPushArgumentMap_def update_conv' split: option.splits)

lemma dup_goto_step:
  assumes "neverConstructed s"
    and "vis (basic None None (Some (GoToContext ''m'' [''a'', ''b'']))) (dupEntered s) = Inl OutOfFuel"
  shows "visitGoTo vis ''m'' [''a'', ''b''] s = Inl OutOfFuel"
proof -
  define s1 where "s1 = cv_generateAndPushArgumentMap [''x'', ''x''] [''a'', ''b''] s"
  have args1: "currentArgs s1 = Inr [''b'']"
    by (simp add: s1_def currentArgs_def cv_currentArgumentMap_def
        cv_generateAndPushArgumentMap_def top_def orTypeError_def)
  have args2: "currentArgs (cv_pushBlocks (blocks dupParamModule) ''m'' True
          (snd (generateNextLabel ''m'' [''b''] 0 s1))) = Inr [''b'']"
    by (simp add: s1_def currentArgs_def cv_currentArgumentMap_def
        cv_generateAndPushArgumentMap_def top_def orTypeError_def
        cv_pushBlocks_def generateNextLabel_def Let_def)
  have "visitModule vis dupParamModule s1 = Inl OutOfFuel"
    using assms(2) args1 args2
    by (simp add: visitModule_def Let_def dupEntered_def s1_def [symmetric])
  with assms(1) show ?thesis
    by (simp add: visitGoTo_def neverConstructed_def orTypeError_def s1_def)
qed

lemma dup_goto_diverges:
  "neverConstructed s \<Longrightarrow> visitGoTo (visit n) ''m'' [''a'', ''b''] s = Inl OutOfFuel"
proof (induction n arbitrary: s)
  case 0
  then show ?case by (simp add: dup_goto_step)
next
  case (Suc n)
  have "visitGoTo (visit n) ''m'' [''a'', ''b''] (dupEntered s) = Inl OutOfFuel"
    by (rule Suc.IH [OF dupEntered_neverConstructed [OF Suc.prems]])
  then have "visit (Suc n) (basic None None (Some (GoToContext ''m'' [''a'', ''b'']))) (dupEntered s)
      = Inl OutOfFuel"
    by (simp add: basic_def visitBasicBlock_def getTMChangeForBasicBlock_def)
  with Suc.prems show ?case by (rule dup_goto_step)
qed

text \<open>
  Claim C2 at the program \<open>dupParams\<close>, which the Validator accepts: the recorded argument
  list of \<open>m\<close> is \<open>[b]\<close> (the values of the argument map, whose only key is \<open>x\<close>), which never
  matches the arguments \<open>[a, b]\<close> of the GoTo, so \<open>m\<close> is lowered again at every visit of its
  own GoTo: no depth of the visitor's recursion is enough, and no automaton is produced.
\<close>

theorem duplicate_parameters_never_constructed:
  "valv_validate dupParams = Inr () \<and> (\<forall>n. convert n dupParams = Inl OutOfFuel)"
proof
  show "valv_validate dupParams = Inr ()" by code_simp
next
  show "\<forall>n. convert n dupParams = Inl OutOfFuel"
  proof
    fix n
    define s0 where "s0 = recordConstructed ''main'' [] dupStart"
    have nc: "neverConstructed s0"
      by (simp add: neverConstructed_def s0_def dupStart_def recordConstructed_def
          isModuleConstructed_def cv_pushBlocks_def generateNextLabel_def Let_def
          newCodeConverter_def dupParams_def)
    have blk: "visit n (basic None None (Some (GoToContext ''m'' [''a'', ''b'']))) s0 = Inl OutOfFuel"
    proof (cases n)
      case 0
      then show ?thesis by simp
    next
      case (Suc k)
      with dup_goto_diverges [OF nc, of k] show ?thesis
        by (simp add: basic_def visitBasicBlock_def getTMChangeForBasicBlock_def)
    qed
    have "visitProgram n dupParams (newCodeConverter dupParams) = Inl OutOfFuel"
      using blk
      by (simp add: visitProgram_def dupParams_def [THEN arg_cong [where f = modules], simplified]
          visitModule_def Let_def currentArgs_def cv_currentArgumentMap_def top_def
          orTypeError_def cv_pushBlocks_def generateNextLabel_def s0_def dupStart_def
          newCodeConverter_def dupParams_def)
    then show "convert n dupParams = Inl OutOfFuel"
      by (simp add: convert_def)
  qed
qed

subsection \<open>While cases\<close>

text \<open>
  Claim C6 at the program \<open>collidingLabels\<close>, which the Validator accepts: the Switch Block of
  the module \<open>n-a\<close> is the state \<open>n-a-0\<close>; lowering its If case constructs the module \<open>n\<close> with
  the argument \<open>a\<close>, whose base identifier is \<open>n-a\<close> as well and whose block advances the
  shared counter; the While case's transition (on blank) then has the next state \<open>n-a-2\<close>,
  not the Switch Block's own label.
\<close>

theorem while_label_collision:
  "valv_validate collidingLabels = Inr () \<and>
   convert 5 collidingLabels =
     Inr \<lparr> initialState = ''n-a-0'', tm_alphabet = [''a''],
           states =
             [(''n-a-0'', VariableTMState
                 [(''a'', \<lparr> nextState = ''n-a-0'', letter = None, direction = None \<rparr>),
                  ([], \<lparr> nextState = ''n-a-2'', letter = None, direction = Some RIGHT \<rparr>)]),
              (''n-a-1'', ConstantTMState
                 \<lparr> nextState = ''accept'', letter = None, direction = None \<rparr>)] \<rparr>"
  by code_simp

subsection \<open>Labels of block sequences\<close>

text \<open>
  Lowering a block or a module returns with the identifier stack and the argument-map stack
  as they were, and with every counter at least where it was.
\<close>

lemma countersGrow_refl [simp]: "countersGrow m m"
  by (simp add: countersGrow_def)

lemma countersGrow_trans: "countersGrow a b \<Longrightarrow> countersGrow b c \<Longrightarrow> countersGrow a c"
  unfolding countersGrow_def by (meson le_trans)

lemma countersGrow_update:
  "(\<forall>i. map_of m k = Some i \<longrightarrow> i \<le> v) \<Longrightarrow> countersGrow m (AList.update k v m)"
  by (auto simp: countersGrow_def update_conv')

lemma labelsKept_refl [simp]: "labelsKept s s"
  by (simp add: labelsKept_def)

lemma labelsKept_trans: "labelsKept a b \<Longrightarrow> labelsKept b c \<Longrightarrow> labelsKept a c"
  by (auto simp: labelsKept_def intro: countersGrow_trans)

lemma labelsKept_generateNextLabel: "labelsKept s (snd (generateNextLabel i a k s))"
  by (auto simp: labelsKept_def generateNextLabel_def Let_def intro!: countersGrow_update
      split: option.splits)

lemma cv_incrementIndex_eq:
  assumes "cv_incrementIndex s = Inr s'"
  shows "\<exists>ident args s1. s' = snd (generateNextLabel ident args 0 s1) \<and>
           currentIdentifier s = Inr ident \<and> currentArgs s = Inr args \<and>
           identifierStack s1 = identifierStack s \<and>
           cv_argumentMapStack s1 = cv_argumentMapStack s \<and>
           identifierIndexMap s1 = identifierIndexMap s"
proof -
  define s1 where "s1 = (if cv_currentBlockIndexStack s = [] then s
     else s\<lparr> cv_currentBlockIndexStack :=
              butlast (cv_currentBlockIndexStack s) @ [last (cv_currentBlockIndexStack s) + 1] \<rparr>)"
  have same: "identifierStack s1 = identifierStack s"
    "cv_argumentMapStack s1 = cv_argumentMapStack s"
    "identifierIndexMap s1 = identifierIndexMap s"
    by (simp_all add: s1_def)
  then have ci: "currentIdentifier s1 = currentIdentifier s" "currentArgs s1 = currentArgs s"
    by (simp_all add: currentIdentifier_def currentArgs_def cv_currentArgumentMap_def)
  from assms obtain ident args where
    i: "currentIdentifier s1 = Inr ident" "currentArgs s1 = Inr args"
    and e: "s' = snd (generateNextLabel ident args 0 s1)"
    unfolding cv_incrementIndex_def Let_def s1_def [symmetric]
    by (auto simp: bindE_Inr_iff)
  from i ci have "currentIdentifier s = Inr ident" "currentArgs s = Inr args" by simp_all
  with same e show ?thesis by blast
qed

lemma labelsKept_incrementIndex: "cv_incrementIndex s = Inr s' \<Longrightarrow> labelsKept s s'"
proof -
  assume "cv_incrementIndex s = Inr s'"
  from cv_incrementIndex_eq [OF this] obtain ident args s1 where
    s': "s' = snd (generateNextLabel ident args 0 s1)"
    and same: "identifierStack s1 = identifierStack s"
      "cv_argumentMapStack s1 = cv_argumentMapStack s"
      "identifierIndexMap s1 = identifierIndexMap s"
    by blast
  from labelsKept_generateNextLabel [of s1 ident args 0] same show ?thesis
    by (simp add: s' labelsKept_def)
qed

lemma labelsKept_cv_addState [simp]: "labelsKept s (cv_addState l st s)"
  by (simp add: labelsKept_def cv_addState_def)

lemma labelsKept_addTransitions [simp]: "labelsKept s (addTransitions l ls c s)"
  by (simp add: labelsKept_def addTransitions_def)

lemma labelsKept_recordConstructed [simp]: "labelsKept s (recordConstructed i a s)"
  by (simp add: labelsKept_def recordConstructed_def)

lemma labelsKept_bindCase: "bindCase l c ch r s = Inr (r', s') \<Longrightarrow> labelsKept s s'"
  by (auto simp: bindCase_def bindE_Inr_iff Let_def split: CaseContext.splits if_splits)

lemma labelsKept_visitBlocks:
  "visitKeeps vis \<Longrightarrow> visitBlocks vis bs s = Inr s' \<Longrightarrow> labelsKept s s'"
proof (induction bs arbitrary: s)
  case Nil
  then show ?case by simp
next
  case (Cons b bs)
  from Cons.prems(2) obtain s1 s2 where
    1: "vis b s = Inr s1" and 2: "cv_incrementIndex s1 = Inr s2"
    and 3: "visitBlocks vis bs s2 = Inr s'"
    by (auto simp: bindE_Inr_iff)
  from Cons.prems(1) 1 have "labelsKept s s1" by (auto simp: visitKeeps_def)
  moreover from 2 have "labelsKept s1 s2" by (rule labelsKept_incrementIndex)
  moreover from Cons.IH [OF Cons.prems(1) 3] have "labelsKept s2 s'" .
  ultimately show ?case by (blast intro: labelsKept_trans)
qed

lemma visitModule_stacks:
  assumes "visitKeeps vis" "visitModule vis m s = Inr s'"
  shows "identifierStack s' = identifierStack s \<and>
         cv_argumentMapStack s' = butlast (cv_argumentMapStack s) \<and>
         countersGrow (identifierIndexMap s) (identifierIndexMap s')"
proof -
  from assms(2) obtain args args2 s3 where
    a: "currentArgs s = Inr args"
    and v: "visitBlocks vis (blocks m)
             (recordConstructed (mod_identifier m) args2
               (cv_pushBlocks (blocks m) (mod_identifier m) True
                 (snd (generateNextLabel (mod_identifier m) args 0 s)))) = Inr s3"
    and s': "s' = popBlocks s3"
    by (auto simp: visitModule_def bindE_Inr_iff Let_def)
  from labelsKept_visitBlocks [OF assms(1) v] have k: "labelsKept
       (recordConstructed (mod_identifier m) args2
               (cv_pushBlocks (blocks m) (mod_identifier m) True
                 (snd (generateNextLabel (mod_identifier m) args 0 s)))) s3" .
  have g: "countersGrow (identifierIndexMap s)
      (identifierIndexMap (snd (generateNextLabel (mod_identifier m) args 0 s)))"
    using labelsKept_generateNextLabel [of s "mod_identifier m" args 0]
    by (simp add: labelsKept_def)
  from k g show ?thesis
    by (auto simp: s' popBlocks_def labelsKept_def recordConstructed_def cv_pushBlocks_def
        generateNextLabel_def Let_def intro: countersGrow_trans)
qed

lemma gotoKeeps_visitGoTo: "visitKeeps vis \<Longrightarrow> gotoKeeps (visitGoTo vis)"
  unfolding gotoKeeps_def
proof (intro allI impI)
  fix i a s l s'
  assume vk: "visitKeeps vis" and g: "visitGoTo vis i a s = Inr (l, s')"
  from g obtain m where
    r: "(if \<not> isModuleConstructed (mod_identifier m) a s
         then visitModule vis m (cv_generateAndPushArgumentMap (params m) a s)
         else Inr s) = Inr s'"
    by (auto simp: visitGoTo_def bindE_Inr_iff)
  show "labelsKept s s'"
  proof (cases "isModuleConstructed (mod_identifier m) a s")
    case True
    with r show ?thesis by simp
  next
    case False
    with r have "visitModule vis m (cv_generateAndPushArgumentMap (params m) a s) = Inr s'"
      by simp
    from visitModule_stacks [OF vk this] show ?thesis
      by (simp add: labelsKept_def cv_generateAndPushArgumentMap_def)
  qed
qed

lemma labelsKept_visitFlow:
  "gotoKeeps g \<Longrightarrow> visitFlow g f s = Inr (l, s') \<Longrightarrow> labelsKept s s'"
  by (cases f) (auto simp: gotoKeeps_def)

lemma labelsKept_getTMChangeForBasicBlock:
  "gotoKeeps g \<Longrightarrow> getTMChangeForBasicBlock g b s = Inr (c, s') \<Longrightarrow> labelsKept s s'"
  by (auto simp: getTMChangeForBasicBlock_def bindE_Inr_iff
      dest: labelsKept_visitFlow split: option.splits)

lemma labelsKept_visitBasicBlock:
  "gotoKeeps g \<Longrightarrow> visitBasicBlock g b s = Inr s' \<Longrightarrow> labelsKept s s'"
  by (auto simp: visitBasicBlock_def bindE_Inr_iff
      dest!: labelsKept_getTMChangeForBasicBlock intro: labelsKept_trans)

lemma currentArgs_nonempty: "currentArgs s = Inr a \<Longrightarrow> cv_argumentMapStack s \<noteq> []"
  by (auto simp: currentArgs_def cv_currentArgumentMap_def top_def orTypeError_def
      bindE_Inr_iff split: if_splits)

lemma labelsKept_visitIfOrElse:
  assumes "visitKeeps vis" "visitIfOrElse vis bs x s = Inr (l, s')"
  shows "labelsKept s s'"
proof (cases "length bs > 1")
  case False
  with assms(2) show ?thesis by (simp add: visitIfOrElse_def)
next
  case True
  with assms(2) obtain cl args s3 where
    a: "currentArgs s = Inr args"
    and v: "visitBlocks vis (tl bs)
              (cv_pushBlocks bs (cl @ ''-'' @ x) False
                 (snd (generateNextLabel (cl @ ''-'' @ x) args 1 s))) = Inr s3"
    and s': "s' = popBlocks s3"
    by (auto simp: visitIfOrElse_def bindE_Inr_iff Let_def split_def)
  from labelsKept_visitBlocks [OF assms(1) v] have k: "labelsKept
      (cv_pushBlocks bs (cl @ ''-'' @ x) False
                 (snd (generateNextLabel (cl @ ''-'' @ x) args 1 s))) s3" .
  have g: "countersGrow (identifierIndexMap s)
      (identifierIndexMap (snd (generateNextLabel (cl @ ''-'' @ x) args 1 s)))"
    using labelsKept_generateNextLabel [of s "cl @ ''-'' @ x" args 1]
    by (simp add: labelsKept_def)
  from currentArgs_nonempty [OF a] k g show ?thesis
    by (auto simp: s' popBlocks_def labelsKept_def cv_pushBlocks_def top_def
        generateNextLabel_def Let_def intro: countersGrow_trans)
qed

lemma labelsKept_visitCase:
  "visitKeeps vis \<Longrightarrow> visitCase vis c s = Inr (l, s') \<Longrightarrow> labelsKept s s'"
  by (cases c) (auto simp: bindE_Inr_iff dest: labelsKept_visitIfOrElse)

lemma labelsKept_getTMChangeForSwitchCase:
  assumes "visitKeeps vis" "gotoKeeps g" "getTMChangeForSwitchCase vis g c s = Inr (ch, s')"
  shows "labelsKept s s'"
  using assms
  by (auto simp: getTMChangeForSwitchCase_def bindE_Inr_iff
      dest: labelsKept_visitFlow labelsKept_visitCase split: option.splits)

lemma labelsKept_visitCases:
  "visitKeeps vis \<Longrightarrow> gotoKeeps g \<Longrightarrow> visitCases vis g l cs r s = Inr s' \<Longrightarrow> labelsKept s s'"
proof (induction cs arbitrary: r s)
  case Nil
  then show ?case by simp
next
  case (Cons c cs)
  from Cons.prems(3) obtain ch s1 r1 s2 where
    1: "getTMChangeForSwitchCase vis g c s = Inr (ch, s1)"
    and 2: "bindCase l c ch r s1 = Inr (r1, s2)"
    and 3: "visitCases vis g l cs r1 s2 = Inr s'"
    by (auto simp: bindE_Inr_iff)
  from labelsKept_getTMChangeForSwitchCase [OF Cons.prems(1,2) 1] labelsKept_bindCase [OF 2]
    Cons.IH [OF Cons.prems(1,2) 3]
  show ?case by (blast intro: labelsKept_trans)
qed

lemma labelsKept_visitSwitchBlock:
  "visitKeeps vis \<Longrightarrow> gotoKeeps g \<Longrightarrow> visitSwitchBlock vis g cs s = Inr s' \<Longrightarrow> labelsKept s s'"
  by (auto simp: visitSwitchBlock_def bindE_Inr_iff
      dest!: labelsKept_visitCases intro: labelsKept_trans [OF labelsKept_cv_addState])

lemma visitKeeps_visit: "visitKeeps (visit n)"
proof (induction n)
  case 0
  show ?case by (simp add: visitKeeps_def)
next
  case (Suc n)
  show ?case
    unfolding visitKeeps_def
  proof (intro allI impI)
    fix b s s'
    assume "visit (Suc n) b s = Inr s'"
    with Suc gotoKeeps_visitGoTo [OF Suc] show "labelsKept s s'"
      by (cases b) (auto dest: labelsKept_visitBasicBlock labelsKept_visitSwitchBlock)
  qed
qed

text \<open>
  The label of the current block, read from the base identifier and its counter.
\<close>

lemma getCurrentLabel_counter:
  "getCurrentLabel True s = Inr l \<longleftrightarrow>
   (\<exists>k i. currentBase s = Some k \<and> currentCounter s = Some i \<and> l = k @ ''-'' @ string_of_nat i)"
  by (cases "currentArgs s"; cases "currentIdentifier s")
     (auto simp: getCurrentLabel_def currentBase_def currentCounter_def baseIdentifier_def
       orTypeError_def bindE_Inr_iff split: option.splits)

lemma labelsKept_currentBase: "labelsKept s s' \<Longrightarrow> currentBase s' = currentBase s"
  by (simp add: labelsKept_def currentBase_def currentIdentifier_def currentArgs_def
      cv_currentArgumentMap_def)

lemma labelsKept_currentCounter:
  "labelsKept s s' \<Longrightarrow> currentCounter s = Some i \<Longrightarrow> \<exists>j. currentCounter s' = Some j \<and> i \<le> j"
  using labelsKept_currentBase [of s s']
  by (auto simp: currentCounter_def labelsKept_def countersGrow_def split: option.splits)

lemma incrementIndex_counter:
  assumes "cv_incrementIndex s = Inr s'" "currentCounter s = Some j"
  shows "currentBase s' = currentBase s \<and> currentCounter s' = Some (Suc j)"
proof -
  from cv_incrementIndex_eq [OF assms(1)] obtain ident args s1 where
    s': "s' = snd (generateNextLabel ident args 0 s1)"
    and i: "currentIdentifier s = Inr ident" "currentArgs s = Inr args"
    and same: "identifierStack s1 = identifierStack s"
      "cv_argumentMapStack s1 = cv_argumentMapStack s"
      "identifierIndexMap s1 = identifierIndexMap s"
    by blast
  have b: "currentBase s = Some (baseIdentifier ident args)"
    using i by (simp add: currentBase_def)
  have b': "currentBase s' = currentBase s"
    using same by (simp add: s' currentBase_def currentIdentifier_def currentArgs_def
        cv_currentArgumentMap_def generateNextLabel_def Let_def)
  from assms(2) b have "map_of (identifierIndexMap s) (baseIdentifier ident args) = Some j"
    by (simp add: currentCounter_def)
  with same b b' show ?thesis
    by (simp add: currentCounter_def s' generateNextLabel_def Let_def update_conv')
qed

lemma string_of_nat_0 [simp]: "string_of_nat 0 = ''0''"
  by (simp add: string_of_nat.simps)

lemma string_of_nat_1 [simp]: "string_of_nat (Suc 0) = ''1''"
  by (simp add: string_of_nat.simps)

lemma subSequenceStart_label:
  assumes "currentArgs s = Inr args" "isIfOrElse c"
  shows "currentBase (subSequenceStart c cl args s) = Some (baseIdentifier (cl @ ''-'' @ caseTag c) args)"
    and "getCurrentLabel True (subSequenceStart c cl args s) =
         Inr (fst (generateNextLabel (cl @ ''-'' @ caseTag c) args 1 s))"
proof -
  from assms(1) obtain m where m: "top (cv_argumentMapStack s) = Some m" "args = map snd m"
    by (auto simp: currentArgs_def cv_currentArgumentMap_def orTypeError_def bindE_Inr_iff
        split: option.splits)
  then have ne: "cv_argumentMapStack s \<noteq> []" by (auto simp: top_def split: if_splits)
  have ca: "currentArgs (subSequenceStart c cl args s) = Inr args"
    using m ne
    by (simp add: subSequenceStart_def cv_pushBlocks_def generateNextLabel_def Let_def
        currentArgs_def cv_currentArgumentMap_def top_def orTypeError_def)
  have ci: "currentIdentifier (subSequenceStart c cl args s) = Inr (cl @ ''-'' @ caseTag c)"
    using m ne
    by (simp add: subSequenceStart_def cv_pushBlocks_def generateNextLabel_def Let_def
        currentIdentifier_def top_def orTypeError_def)
  from ca ci show "currentBase (subSequenceStart c cl args s) =
      Some (baseIdentifier (cl @ ''-'' @ caseTag c) args)"
    by (simp add: currentBase_def)
  have im: "identifierIndexMap (subSequenceStart c cl args s) =
      identifierIndexMap (snd (generateNextLabel (cl @ ''-'' @ caseTag c) args 1 s))"
    using m ne by (simp add: subSequenceStart_def cv_pushBlocks_def top_def Let_def
        generateNextLabel_def)
  show "getCurrentLabel True (subSequenceStart c cl args s) =
         Inr (fst (generateNextLabel (cl @ ''-'' @ caseTag c) args 1 s))"
    using ca ci
    by (simp add: getCurrentLabel_def im generateNextLabel_def Let_def update_conv'
        baseIdentifier_def orTypeError_def)
qed

lemma sub_sequence_case:
  assumes c: "isIfOrElse c" "length (caseBlocks c) > 1" "firstBlock c = Some (ExecBasic b)"
    "flowCommand b = None"
    and g: "getTMChangeForSwitchCase vis goTo c s = Inr (change, s')"
  shows "\<exists>cl args s3.
      getCurrentLabel False s = Inr cl \<and> currentArgs s = Inr args \<and>
      (args = [] \<longrightarrow> getCurrentLabel True s = Inr cl) \<and>
      visitBlocks vis (tl (caseBlocks c)) (subSequenceStart c cl args s) = Inr s3 \<and>
      s' = popBlocks s3 \<and>
      currentBase (subSequenceStart c cl args s) = Some (baseIdentifier (cl @ ''-'' @ caseTag c) args) \<and>
      getCurrentLabel True (subSequenceStart c cl args s) = Inr (nextState change) \<and>
      (map_of (identifierIndexMap s) (baseIdentifier (cl @ ''-'' @ caseTag c) args) = None \<longrightarrow>
         nextState change = baseIdentifier (cl @ ''-'' @ caseTag c) args @ ''-1'')"
proof -
  have vc: "visitCase vis c s = visitIfOrElse vis (caseBlocks c) (caseTag c) s"
    using c(1) by (cases c) simp_all
  from g c(3,4) obtain nxt s1 where
    v: "visitIfOrElse vis (caseBlocks c) (caseTag c) s = Inr (nxt, s1)"
    and r: "(case nxt of Some l \<Rightarrow> Inr (l, s1)
             | None \<Rightarrow> bindE (incrementIndexAndFindNextState s1) (\<lambda>r. Inr (orReject r, s1)))
            = Inr (nextState change, s')"
    by (auto simp: getTMChangeForSwitchCase_def orTypeError_def blockFlow_def vc bindE_Inr_iff)
  from v c(2) obtain cl args s3 where
    cl: "getCurrentLabel False s = Inr cl" and a: "currentArgs s = Inr args"
    and vb: "visitBlocks vis (tl (caseBlocks c)) (subSequenceStart c cl args s) = Inr s3"
    and nx: "nxt = Some (fst (generateNextLabel (cl @ ''-'' @ caseTag c) args 1 s))"
    and s1: "s1 = popBlocks s3"
    by (auto simp: visitIfOrElse_def bindE_Inr_iff Let_def split_def subSequenceStart_def)
  from r nx s1 have ns: "nextState change = fst (generateNextLabel (cl @ ''-'' @ caseTag c) args 1 s)"
    and s': "s' = popBlocks s3" by simp_all
  have t: "args = [] \<longrightarrow> getCurrentLabel True s = Inr cl"
    using cl a by (auto simp: getCurrentLabel_def bindE_Inr_iff)
  have fresh: "map_of (identifierIndexMap s) (baseIdentifier (cl @ ''-'' @ caseTag c) args) = None \<longrightarrow>
         nextState change = baseIdentifier (cl @ ''-'' @ caseTag c) args @ ''-1''"
    by (simp add: ns generateNextLabel_def Let_def)
  from subSequenceStart_label [OF a c(1), of cl] cl a t vb s' ns fresh show ?thesis
    by auto
qed

lemma module_start:
  assumes "visitModule vis m s = Inr s'" "currentArgs s = Inr args"
  shows "(\<exists>s3. visitBlocks vis (blocks m) (moduleStart m args s) = Inr s3 \<and> s' = popBlocks s3) \<and>
         currentBase (moduleStart m args s) = Some (baseIdentifier (mod_identifier m) args) \<and>
         (map_of (identifierIndexMap s) (baseIdentifier (mod_identifier m) args) = None \<longrightarrow>
            currentCounter (moduleStart m args s) = Some 0 \<and>
            getCurrentLabel True (moduleStart m args s) =
              Inr (baseIdentifier (mod_identifier m) args @ ''-0''))"
proof -
  have ca: "currentArgs (cv_pushBlocks (blocks m) (mod_identifier m) True
          (snd (generateNextLabel (mod_identifier m) args 0 s))) = Inr args"
    using assms(2)
    by (simp add: cv_pushBlocks_def generateNextLabel_def Let_def currentArgs_def
        cv_currentArgumentMap_def)
  from assms ca have 1: "\<exists>s3. visitBlocks vis (blocks m) (moduleStart m args s) = Inr s3 \<and> s' = popBlocks s3"
    by (auto simp: visitModule_def Let_def bindE_Inr_iff moduleStart_def)
  have ca2: "currentArgs (moduleStart m args s) = Inr args"
    using ca by (simp add: moduleStart_def recordConstructed_def currentArgs_def
        cv_currentArgumentMap_def)
  have ci: "currentIdentifier (moduleStart m args s) = Inr (mod_identifier m)"
    by (simp add: moduleStart_def recordConstructed_def cv_pushBlocks_def generateNextLabel_def
        Let_def currentIdentifier_def top_def orTypeError_def)
  from ca2 ci have 2: "currentBase (moduleStart m args s) = Some (baseIdentifier (mod_identifier m) args)"
    by (simp add: currentBase_def)
  have im: "identifierIndexMap (moduleStart m args s) =
      identifierIndexMap (snd (generateNextLabel (mod_identifier m) args 0 s))"
    by (simp add: moduleStart_def recordConstructed_def cv_pushBlocks_def)
  have 3: "map_of (identifierIndexMap s) (baseIdentifier (mod_identifier m) args) = None \<longrightarrow>
            currentCounter (moduleStart m args s) = Some 0"
    by (simp add: currentCounter_def 2 im generateNextLabel_def Let_def update_conv')
  from 1 2 3 show ?thesis
    by (auto simp: getCurrentLabel_counter)
qed

lemma blocks_loop_step:
  assumes "visitBlocks (visit n) (b # bs) s = Inr s_end" "currentCounter s = Some i"
  shows "\<exists>s1 s2 j. visit n b s = Inr s1 \<and> cv_incrementIndex s1 = Inr s2 \<and>
           visitBlocks (visit n) bs s2 = Inr s_end \<and>
           currentBase s1 = currentBase s \<and> currentBase s2 = currentBase s \<and>
           currentCounter s1 = Some j \<and> i \<le> j \<and> currentCounter s2 = Some (Suc j)"
proof -
  from assms(1) obtain s1 s2 where
    1: "visit n b s = Inr s1" and 2: "cv_incrementIndex s1 = Inr s2"
    and 3: "visitBlocks (visit n) bs s2 = Inr s_end"
    by (auto simp: bindE_Inr_iff)
  from visitKeeps_visit [of n] 1 have k: "labelsKept s s1" by (auto simp: visitKeeps_def)
  from labelsKept_currentCounter [OF k assms(2)] obtain j where
    j: "currentCounter s1 = Some j" "i \<le> j" by blast
  from incrementIndex_counter [OF 2 j(1)] labelsKept_currentBase [OF k] 1 2 3 j
  show ?thesis by auto
qed

text \<open>
  The converter's own test program \<open>moduleWithIfBlock\<close>: the If case on blank has two blocks,
  its transition targets \<open>simple-0-blank-1\<close>, the only state of the sub-sequence. The numbers
  of a sub-sequence start at 1, as CodeConverter.spec.ts expects.
\<close>

lemma moduleWithIfBlock_converts:
  "valv_validate moduleWithIfBlock = Inr () \<and>
   convert 5 moduleWithIfBlock =
     Inr \<lparr> initialState = ''simple-0'', tm_alphabet = [''a'', ''b''],
           states =
             [(''simple-0'', VariableTMState
                 [(''a'', \<lparr> nextState = ''reject'', letter = None, direction = Some LEFT \<rparr>),
                  (''b'', \<lparr> nextState = ''simple-0'', letter = None, direction = Some RIGHT \<rparr>),
                  ([], \<lparr> nextState = ''simple-0-blank-1'', letter = None, direction = Some RIGHT \<rparr>)]),
              (''simple-0-blank-1'', ConstantTMState
                 \<lparr> nextState = ''simple-0'', letter = Some ''b'', direction = Some LEFT \<rparr>)] \<rparr>"
  by code_simp

text \<open>
  Claim C7 at two programs the Validator accepts, each run on the tape \<open>a\<close>.

  In \<open>sharedBase\<close> the If case has two blocks and the first has no flow command. The case's
  transition targets \<open>q-0-a-1\<close>, the label current when the sub-sequence starts, but no state
  has this label: \<open>visitBasicBlock\<close> reads the label of the second block only after it has
  lowered the block's GoTo, and lowering the module \<open>q-0-a\<close> advances the counter of the
  same base identifier \<open>q-0-a\<close>, so the block is stored as \<open>q-0-a-3\<close> (and the module's block
  as \<open>q-0-a-2\<close>, while the GoTo leads to \<open>q-0-a-0\<close>). The interpreter accepts at its third
  step; the automaton makes one step and is left at a label without a state.

  In \<open>gotoFirst\<close> the first block of the If case has a flow command: the block after it is
  not lowered at all, the automaton has the two states \<open>main-0\<close> and \<open>f-0\<close>. The interpreter
  comes back from the module \<open>f\<close> to the second block of the case and accepts; the automaton
  rejects.
\<close>

theorem sub_sequence_target_without_state:
  "valv_validate sharedBase = Inr () \<and>
   convert 5 sharedBase =
     Inr \<lparr> initialState = ''q-0'', tm_alphabet = [''a''],
           states =
             [(''q-0'', VariableTMState
                 [(''a'', \<lparr> nextState = ''q-0-a-1'', letter = None, direction = Some RIGHT \<rparr>),
                  ([], \<lparr> nextState = ''reject'', letter = None, direction = None \<rparr>)]),
              (''q-0-a-2'', ConstantTMState
                 \<lparr> nextState = ''accept'', letter = None, direction = None \<rparr>),
              (''q-0-a-3'', ConstantTMState
                 \<lparr> nextState = ''q-0-a-0'', letter = None, direction = Some LEFT \<rparr>)] \<rparr> \<and>
   (case newCodeExecutor ''a'' sharedBase of
      None \<Rightarrow> []
    | Some s \<Rightarrow> map snd (interpreterTrace 5 s)) = [None, None, Some ACCEPT] \<and>
   (case convert 5 sharedBase of
      Inl e \<Rightarrow> None
    | Inr tm \<Rightarrow> Some (map snd (automatonTrace 5 tm (initialState tm) (newTMTape ''a''))))
     = Some [None] \<and>
   valv_validate gotoFirst = Inr () \<and>
   convert 5 gotoFirst =
     Inr \<lparr> initialState = ''main-0'', tm_alphabet = [''a''],
           states =
             [(''main-0'', VariableTMState
                 [(''a'', \<lparr> nextState = ''f-0'', letter = None, direction = Some RIGHT \<rparr>),
                  ([], \<lparr> nextState = ''reject'', letter = None, direction = None \<rparr>)]),
              (''f-0'', ConstantTMState
                 \<lparr> nextState = ''reject'', letter = None, direction = Some RIGHT \<rparr>)] \<rparr> \<and>
   (case newCodeExecutor ''a'' gotoFirst of
      None \<Rightarrow> []
    | Some s \<Rightarrow> map snd (interpreterTrace 5 s)) = [None, None, Some ACCEPT] \<and>
   (case convert 5 gotoFirst of
      Inl e \<Rightarrow> None
    | Inr tm \<Rightarrow> Some (map snd (automatonTrace 5 tm (initialState tm) (newTMTape ''a''))))
     = Some [None, Some REJECT]"
  by code_simp

end
